theory Spec2Isabelle
  imports Main
begin

section \<open>Python strings\<close>

text \<open>
  The lint engine is Python; its messages are values of Python 3's \<open>str\<close>. A string is
  modelled as a \<open>char list\<close> whose characters are the code points below 256. The string
  methods the engine calls are written out here with Python 3's meaning on those code
  points.
\<close>

text \<open>\<open>str.isspace\<close> on one character: the whitespace that \<open>lstrip()\<close> and
  \<open>strip()\<close> remove.\<close>

definition isspace :: "char \<Rightarrow> bool" where
  "isspace c = (c \<in> set [CHR 0x09, CHR 0x0A, CHR 0x0B, CHR 0x0C, CHR 0x0D,
                          CHR 0x1C, CHR 0x1D, CHR 0x1E, CHR 0x1F, CHR 0x20,
                          CHR 0x85, CHR 0xA0])"

definition lstrip :: "string \<Rightarrow> string" where
  "lstrip s = dropWhile isspace s"

definition rstrip :: "string \<Rightarrow> string" where
  "rstrip s = rev (dropWhile isspace (rev s))"

definition strip :: "string \<Rightarrow> string" where
  "strip s = lstrip (rstrip s)"

text \<open>The line boundaries of \<open>str.splitlines()\<close>; a carriage return followed by a
  line feed is one boundary.\<close>

definition is_linebreak :: "char \<Rightarrow> bool" where
  "is_linebreak c = (c \<in> set [CHR 0x0A, CHR 0x0B, CHR 0x0C, CHR 0x0D,
                               CHR 0x1C, CHR 0x1D, CHR 0x1E, CHR 0x85])"

fun splitlines_from :: "string \<Rightarrow> string \<Rightarrow> string list" where
  "splitlines_from cur [] = (if cur = [] then [] else [cur])"
| "splitlines_from cur (c # cs) =
     (if is_linebreak c then
        (case cs of
           d # ds \<Rightarrow> (if c = CHR 0x0D \<and> d = CHR 0x0A then cur # splitlines_from [] ds
                      else cur # splitlines_from [] cs)
         | [] \<Rightarrow> cur # splitlines_from [] cs)
      else splitlines_from (cur @ [c]) cs)"

definition splitlines :: "string \<Rightarrow> string list" where
  "splitlines s = splitlines_from [] s"

text \<open>The substring test \<open>sub in s\<close>.\<close>

fun starts_with :: "string \<Rightarrow> string \<Rightarrow> bool" where
  "starts_with [] s = True"
| "starts_with (p # ps) [] = False"
| "starts_with (p # ps) (c # cs) = (p = c \<and> starts_with ps cs)"

fun str_in :: "string \<Rightarrow> string \<Rightarrow> bool" where
  "str_in sub [] = (sub = [])"
| "str_in sub (c # cs) = (starts_with sub (c # cs) \<or> str_in sub cs)"

section \<open>ErrorHandler\<close>

text \<open>
  The three bound methods that \<open>errortypes\<close> stores (\<open>self.warn\<close>, \<open>self.error\<close>,
  \<open>self.debug\<close>), and the three methods of the logger that the handler calls.
\<close>

datatype handler = Warn | Error | Debug

datatype level = DEBUG | WARNING | ERROR

text \<open>
  The state of one \<open>ErrorHandler\<close>. \<open>errortypes\<close> is a Python dict: an association
  list in insertion order whose keys are distinct (a key is only ever added when it is
  absent). \<open>wrapper\<close> is the field \<open>_wrapper\<close>: a function from one raw line to the
  wrapped lines; \<open>None\<close> stands for a call that does not return a list. \<open>logged\<close>
  records the calls made on the logger \<open>bcfg2-lint\<close>, oldest first.
\<close>

record ErrorHandler =
  errors :: int
  warnings :: int
  errortypes :: "(string \<times> handler) list"
  wrapper :: "string \<Rightarrow> string list option"
  logged :: "(level \<times> string) list"

definition logger :: "level \<Rightarrow> string \<Rightarrow> ErrorHandler \<Rightarrow> ErrorHandler" where
  "logger lv s h = h\<lparr>logged := logged h @ [(lv, s)]\<rparr>"

text \<open>\<open>err in self.errortypes\<close> and \<open>self.errortypes[err]\<close>.\<close>

definition registered :: "ErrorHandler \<Rightarrow> string \<Rightarrow> bool" where
  "registered h err = (map_of (errortypes h) err \<noteq> None)"

text \<open>The handler chosen for an action string by \<open>RegisterErrors\<close>.\<close>

definition action_handler :: "string \<Rightarrow> handler" where
  "action_handler action =
     (if str_in ''warn'' action then Warn
      else if str_in ''err'' action then Error
      else Debug)"

text \<open>\<open>RegisterErrors\<close>: the argument is the dict's \<open>items()\<close>.\<close>

fun RegisterErrors :: "(string \<times> string) list \<Rightarrow> ErrorHandler \<Rightarrow> ErrorHandler" where
  "RegisterErrors [] h = h"
| "RegisterErrors ((err, action) # rest) h =
     (if \<not> registered h err
      then RegisterErrors rest (h\<lparr>errortypes := errortypes h @ [(err, action_handler action)]\<rparr>)
      else RegisterErrors rest h)"

text \<open>
  \<open>_log\<close>: the inner loop over the wrapped lines of one raw line, carrying the flag
  \<open>firstline\<close>, and the outer loop over the raw lines. \<open>logfunc\<close> is one of the logger's
  methods, given by its level.
\<close>

fun log_lines :: "level \<Rightarrow> string \<Rightarrow> bool \<Rightarrow> string list \<Rightarrow> ErrorHandler
                  \<Rightarrow> bool \<times> ErrorHandler" where
  "log_lines logfunc prefix firstline [] h = (firstline, h)"
| "log_lines logfunc prefix firstline (line # lines) h =
     (if firstline
      then log_lines logfunc prefix False lines (logger logfunc (prefix @ lstrip line) h)
      else log_lines logfunc prefix firstline lines (logger logfunc line h))"

fun log_rawlines :: "level \<Rightarrow> string \<Rightarrow> bool \<Rightarrow> string list \<Rightarrow> ErrorHandler
                     \<Rightarrow> ErrorHandler option" where
  "log_rawlines logfunc prefix firstline [] h = Some h"
| "log_rawlines logfunc prefix firstline (rawline # rawlines) h =
     (case wrapper h rawline of
        None \<Rightarrow> None
      | Some lines \<Rightarrow>
          (case log_lines logfunc prefix firstline lines h of
             (firstline', h') \<Rightarrow> log_rawlines logfunc prefix firstline' rawlines h'))"

definition ErrorHandler_log :: "string \<Rightarrow> level \<Rightarrow> string \<Rightarrow> ErrorHandler
                                \<Rightarrow> ErrorHandler option" where
  "ErrorHandler_log msg logfunc prefix h = log_rawlines logfunc prefix True (splitlines msg) h"

definition error :: "string \<Rightarrow> ErrorHandler \<Rightarrow> ErrorHandler option" where
  "error msg h = ErrorHandler_log msg ERROR ''ERROR: '' (h\<lparr>errors := errors h + 1\<rparr>)"

definition warn :: "string \<Rightarrow> ErrorHandler \<Rightarrow> ErrorHandler option" where
  "warn msg h = ErrorHandler_log msg WARNING ''WARNING: '' (h\<lparr>warnings := warnings h + 1\<rparr>)"

definition debug :: "string \<Rightarrow> ErrorHandler \<Rightarrow> ErrorHandler option" where
  "debug msg h = ErrorHandler_log msg DEBUG '''' h"

fun call_handler :: "handler \<Rightarrow> string \<Rightarrow> ErrorHandler \<Rightarrow> ErrorHandler option" where
  "call_handler Warn msg h = warn msg h"
| "call_handler Error msg h = error msg h"
| "call_handler Debug msg h = debug msg h"

definition dispatch :: "string \<Rightarrow> string \<Rightarrow> ErrorHandler \<Rightarrow> ErrorHandler option" where
  "dispatch err msg h =
     (case map_of (errortypes h) err of
        Some f \<Rightarrow>
          (case call_handler f msg h of
             None \<Rightarrow> None
           | Some h' \<Rightarrow> Some (logger DEBUG (''    ('' @ err @ '')'') h'))
      | None \<Rightarrow>
          (case error msg h of
             None \<Rightarrow> None
           | Some h' \<Rightarrow> Some (logger WARNING (''Unknown error '' @ err) h')))"


text \<open>
  A series of \<open>dispatch\<close> calls made one after the other on the same handler, each given
  by its kind and its message; and the handler that \<open>dispatch\<close> calls for a kind (the
  registered one, or \<open>self.error\<close> for a kind that is not registered).
\<close>

fun dispatch_all :: "(string \<times> string) list \<Rightarrow> ErrorHandler \<Rightarrow> ErrorHandler option" where
  "dispatch_all [] h = Some h"
| "dispatch_all ((err, msg) # evs) h =
     (case dispatch err msg h of
        None \<Rightarrow> None
      | Some h' \<Rightarrow> dispatch_all evs h')"

definition resolve :: "ErrorHandler \<Rightarrow> string \<Rightarrow> handler" where
  "resolve h err = (case map_of (errortypes h) err of Some f \<Rightarrow> f | None \<Rightarrow> Error)"

section \<open>The library's text wrapper\<close>

text \<open>
  \<open>ErrorHandler.__init__\<close> builds
  \<open>textwrap.TextWrapper(initial_indent="  ", subsequent_indent="  ", width=w)\<close> and
  keeps its method \<open>wrap\<close>. The wrapper belongs to the interpreter's library; it is
  modelled after CPython 3.11 with the defaults that call leaves in force
  (\<open>expand_tabs\<close>, \<open>replace_whitespace\<close>, \<open>break_long_words\<close>,
  \<open>drop_whitespace\<close>, \<open>break_on_hyphens\<close>, \<open>tabsize = 8\<close>, no \<open>max_lines\<close>,
  no \<open>fix_sentence_endings\<close>). The regular expression that cuts the text into chunks
  is not modelled: the chunker is a parameter \<open>wordsep_split\<close>. What is proved about
  the wrapper holds for every chunker, except where a statement asks that the chunker
  only cuts the text (the chunks put together give the text back), as splitting on a
  regular expression does.
\<close>

text \<open>\<open>str.expandtabs(8)\<close>: \<open>j\<close> is the column, reset by a line feed or a
  carriage return.\<close>

fun expandtabs_from :: "nat \<Rightarrow> string \<Rightarrow> string" where
  "expandtabs_from j [] = []"
| "expandtabs_from j (c # cs) =
     (if c = CHR 0x09
      then replicate (8 - j mod 8) (CHR '' '') @ expandtabs_from (j + (8 - j mod 8)) cs
      else c # expandtabs_from (if c = CHR 0x0A \<or> c = CHR 0x0D then 0 else j + 1) cs)"

text \<open>The characters of \<open>textwrap._whitespace\<close>, each translated to a space.\<close>

definition tw_whitespace :: "char \<Rightarrow> bool" where
  "tw_whitespace c = (c \<in> set [CHR 0x09, CHR 0x0A, CHR 0x0B, CHR 0x0C, CHR 0x0D, CHR 0x20])"

definition munge_whitespace :: "string \<Rightarrow> string" where
  "munge_whitespace text =
     map (\<lambda>c. if tw_whitespace c then CHR '' '' else c) (expandtabs_from 0 text)"

text \<open>
  A chunker for concrete runs: \<open>wordsep_simple_re.split\<close>, which cuts the text into
  maximal runs of whitespace and of other characters. The handler's wrapper keeps
  \<open>break_on_hyphens\<close> and so cuts with \<open>wordsep_re\<close>, which cuts the same way
  and, besides, after hyphens inside words and around dashes: the two give the same
  chunks on every text without a hyphen. This chunker is used below only to run the
  wrapper on such texts; no general statement depends on it.
\<close>

fun wordsep_simple_split :: "string \<Rightarrow> string list" where
  "wordsep_simple_split [] = []"
| "wordsep_simple_split [c] = [[c]]"
| "wordsep_simple_split (c # d # cs) =
     (if tw_whitespace c = tw_whitespace d
      then (case wordsep_simple_split (d # cs) of
              r # rs \<Rightarrow> (c # r) # rs
            | [] \<Rightarrow> [[c]])
      else [c] # wordsep_simple_split (d # cs))"

text \<open>Python's slice bound: a negative index counts from the end, and the bound is clipped
  to the length.\<close>

definition slice_bound :: "int \<Rightarrow> nat \<Rightarrow> nat" where
  "slice_bound i n = (if i < 0 then nat (max 0 (int n + i)) else min (nat i) n)"

text \<open>\<open>s.rfind(c, 0, e)\<close>: the highest index below the bound that holds \<open>c\<close>, or -1.\<close>

fun rfind_from :: "char \<Rightarrow> string \<Rightarrow> int \<Rightarrow> int \<Rightarrow> int" where
  "rfind_from c [] i found = found"
| "rfind_from c (d # ds) i found = rfind_from c ds (i + 1) (if d = c then i else found)"

definition rfind :: "char \<Rightarrow> string \<Rightarrow> int \<Rightarrow> int" where
  "rfind c s e = rfind_from c (take (slice_bound e (length s)) s) 0 (- 1)"

text \<open>
  The chunks are kept in text order: the head of the list is the library's
  \<open>reversed_chunks[-1]\<close>. \<open>_handle_long_word\<close> is only called on a non-empty list; it
  returns the chunks and the current line.
\<close>

fun handle_long_word :: "string list \<Rightarrow> string list \<Rightarrow> int \<Rightarrow> int
                         \<Rightarrow> string list \<times> string list" where
  "handle_long_word [] cur_line cur_len width = ([], cur_line)"
| "handle_long_word (chunk # rest) cur_line cur_len width =
     (let space_left = (if width < 1 then 1 else width - cur_len);
          hyphen = rfind (CHR ''-'') chunk space_left;
          end = (if int (length chunk) > space_left \<and> hyphen > 0
                    \<and> (\<exists>c \<in> set (take (slice_bound hyphen (length chunk)) chunk). c \<noteq> CHR ''-'')
                 then hyphen + 1 else space_left);
          k = slice_bound end (length chunk)
      in (drop k chunk # rest, cur_line @ [take k chunk]))"

text \<open>The inner loop of \<open>_wrap_chunks\<close>: chunks are moved to the current line while they
  fit.\<close>

fun fill_line :: "int \<Rightarrow> string list \<Rightarrow> int \<Rightarrow> string list
                  \<Rightarrow> string list \<times> int \<times> string list" where
  "fill_line width cur_line cur_len [] = (cur_line, cur_len, [])"
| "fill_line width cur_line cur_len (chunk # chunks) =
     (if cur_len + int (length chunk) \<le> width
      then fill_line width (cur_line @ [chunk]) (cur_len + int (length chunk)) chunks
      else (cur_line, cur_len, chunk # chunks))"

text \<open>One pass of the outer loop of \<open>_wrap_chunks\<close>, entered with chunks left; both
  indents are the two spaces.\<close>

definition wrap_line :: "int \<Rightarrow> string list \<Rightarrow> string list \<Rightarrow> string list \<times> string list" where
  "wrap_line self_width chunks lines =
     (let indent = ''  '';
          width = self_width - int (length indent);
          chunks1 = (if strip (hd chunks) = [] \<and> lines \<noteq> [] then tl chunks else chunks)
      in case fill_line width [] 0 chunks1 of
           (cur_line, cur_len, chunks2) \<Rightarrow>
             (case (if chunks2 \<noteq> [] \<and> int (length (hd chunks2)) > width
                    then handle_long_word chunks2 cur_line cur_len width
                    else (chunks2, cur_line)) of
                (chunks3, cur_line3) \<Rightarrow>
                  (let cur_line4 = (if cur_line3 \<noteq> [] \<and> strip (last cur_line3) = []
                                    then butlast cur_line3 else cur_line3)
                   in (chunks3,
                       if cur_line4 \<noteq> [] then lines @ [indent @ concat cur_line4] else lines))))"

text \<open>The outer loop. It need not end (see \<open>wrap_chunks_width_1\<close> below), so its result
  is an option: \<open>None\<close> is a loop that never returns.\<close>

partial_function (option) wrap_chunks :: "int \<Rightarrow> string list \<Rightarrow> string list
                                          \<Rightarrow> string list option" where
  "wrap_chunks self_width chunks lines =
     (if chunks = [] then Some lines
      else (case wrap_line self_width chunks lines of
              (chunks', lines') \<Rightarrow> wrap_chunks self_width chunks' lines'))"

declare wrap_chunks.simps [code]

text \<open>
  \<open>TextWrapper.wrap\<close>. A width that is not positive makes the library raise
  \<open>ValueError\<close>; the handler never builds such a wrapper, and the model gives \<open>None\<close>
  there.
\<close>

definition TextWrapper_wrap :: "(string \<Rightarrow> string list) \<Rightarrow> int \<Rightarrow> string
                                \<Rightarrow> string list option" where
  "TextWrapper_wrap wordsep_split self_width text =
     (if self_width \<le> 0 then None
      else wrap_chunks self_width
             (filter (\<lambda>c. c \<noteq> []) (wordsep_split (munge_whitespace text))) [])"

text \<open>
  \<open>ErrorHandler.__init__\<close>. \<open>termsize\<close> is what \<open>get_termsize()\<close> returned, a pair
  (width, height) or \<open>None\<close>; \<open>errs\<close> is the argument \<open>errors\<close>.
\<close>

definition ErrorHandler_init :: "(string \<Rightarrow> string list) \<Rightarrow> (int \<times> int) option
                                 \<Rightarrow> (string \<times> string) list option \<Rightarrow> ErrorHandler" where
  "ErrorHandler_init wordsep_split termsize errs =
     (let h = \<lparr>errors = 0, warnings = 0, errortypes = [],
               wrapper = (case termsize of
                            Some (w, ht) \<Rightarrow>
                              (if w > 0 then TextWrapper_wrap wordsep_split w
                               else (\<lambda>s. Some [s]))
                          | None \<Rightarrow> (\<lambda>s. Some [s])),
               logged = []\<rparr>
      in case errs of None \<Rightarrow> h | Some d \<Rightarrow> RegisterErrors d h)"


section \<open>Plugins\<close>

text \<open>
  A check plugin is a black box for the engine. What the engine sees of a plugin class is
  its \<open>__name__\<close>, whether it is a subclass of \<open>ServerPlugin\<close>, the dict returned by
  \<open>Errors()\<close>, and what \<open>Run()\<close> does to the shared handler: a finite series of
  \<open>LintError\<close> calls that either returns or is cut short by an exception raised in the
  plugin (a fault).
\<close>

datatype step = LintError string string | Fault string

record plugin =
  name :: string
  server :: bool
  Errors :: "(string \<times> string) list"
  Run :: "step list"

text \<open>
  The result of a call that may also raise or never return. \<open>Returns\<close> and \<open>Raises\<close>
  carry the state the call leaves behind.
\<close>

datatype ('s, 'a) outcome = Returns 'a 's | Raises string 's | Diverges

text \<open>What can be observed of an outcome: the exception raised, the value returned, and the
  state left behind.\<close>

fun raised :: "('s, 'a) outcome \<Rightarrow> string option" where
  "raised (Raises e s) = Some e"
| "raised (Returns a s) = None"
| "raised Diverges = None"

fun returned :: "('s, 'a) outcome \<Rightarrow> 'a option" where
  "returned (Returns a s) = Some a"
| "returned (Raises e s) = None"
| "returned Diverges = None"

fun state_after :: "('s, 'a) outcome \<Rightarrow> 's option" where
  "state_after (Returns a s) = Some s"
| "state_after (Raises e s) = Some s"
| "state_after Diverges = None"

text \<open>\<open>Plugin.__init__\<close> registers the plugin's errors on the handler it is given;
  \<open>LintError\<close> is \<open>dispatch\<close>.\<close>

definition Plugin_init :: "plugin \<Rightarrow> ErrorHandler \<Rightarrow> ErrorHandler" where
  "Plugin_init p h = RegisterErrors (Errors p) h"

fun Run_steps :: "step list \<Rightarrow> ErrorHandler \<Rightarrow> (ErrorHandler, unit) outcome" where
  "Run_steps [] h = Returns () h"
| "Run_steps (LintError err msg # rest) h =
     (case dispatch err msg h of
        None \<Rightarrow> Diverges
      | Some h' \<Rightarrow> Run_steps rest h')"
| "Run_steps (Fault e # rest) h = Raises e h"

subsection \<open>Paths\<close>

text \<open>\<open>os.path.join\<close> of two components, \<open>os.path.normpath\<close> and \<open>os.path.abspath\<close>
  of \<open>posixpath\<close>; \<open>cwd\<close> is what \<open>os.getcwd()\<close> returns.\<close>

definition path_join :: "string \<Rightarrow> string \<Rightarrow> string" where
  "path_join a b =
     (if starts_with ''/'' b then b
      else if a = [] \<or> last a = CHR ''/'' then a @ b
      else a @ ''/'' @ b)"

fun split_sep :: "char \<Rightarrow> string \<Rightarrow> string list" where
  "split_sep sep [] = [[]]"
| "split_sep sep (c # cs) =
     (if c = sep then [] # split_sep sep cs
      else (case split_sep sep cs of
              x # xs \<Rightarrow> (c # x) # xs
            | [] \<Rightarrow> [[c]]))"

fun str_join :: "string \<Rightarrow> string list \<Rightarrow> string" where
  "str_join sep [] = []"
| "str_join sep [x] = x"
| "str_join sep (x # y # ys) = x @ sep @ str_join sep (y # ys)"

fun normpath_comps :: "nat \<Rightarrow> string list \<Rightarrow> string list \<Rightarrow> string list" where
  "normpath_comps initial_slashes [] new_comps = new_comps"
| "normpath_comps initial_slashes (part # parts) new_comps =
     (if part = [] \<or> part = ''.'' then normpath_comps initial_slashes parts new_comps
      else if part \<noteq> ''..'' \<or> (initial_slashes = 0 \<and> new_comps = [])
                \<or> (new_comps \<noteq> [] \<and> last new_comps = ''..'')
      then normpath_comps initial_slashes parts (new_comps @ [part])
      else if new_comps \<noteq> [] then normpath_comps initial_slashes parts (butlast new_comps)
      else normpath_comps initial_slashes parts new_comps)"

definition normpath :: "string \<Rightarrow> string" where
  "normpath path =
     (if path = [] then ''.''
      else
        (let initial_slashes =
               (if starts_with ''/'' path
                then (if starts_with ''//'' path \<and> \<not> starts_with ''///'' path then 2 else 1)
                else 0);
             parts = normpath_comps initial_slashes (split_sep (CHR ''/'') path) [];
             path' = replicate initial_slashes (CHR ''/'') @ str_join ''/'' parts
         in if path' = [] then ''.'' else path'))"

definition abspath :: "string \<Rightarrow> string \<Rightarrow> string" where
  "abspath cwd path =
     normpath (if starts_with ''/'' path then path else path_join cwd path)"

text \<open>\<open>Plugin.HandlesFile\<close>: \<open>files\<close> is the plugin's file list (\<open>None\<close> when the run
  is not restricted), \<open>repository\<close> is the option of that name.\<close>

definition HandlesFile :: "string \<Rightarrow> string \<Rightarrow> string list option \<Rightarrow> string \<Rightarrow> bool" where
  "HandlesFile repository cwd files fname =
     (case files of
        None \<Rightarrow> True
      | Some fs \<Rightarrow>
          fname \<in> set fs \<or>
          path_join repository fname \<in> set fs \<or>
          abspath cwd fname \<in> set fs \<or>
          abspath cwd (path_join repository fname) \<in> set fs)"

section \<open>The command line runner\<close>

text \<open>Formatting: \<open>%d\<close>, \<open>%-35s\<close>, and \<open>%s\<close> of a list of class names (a class name is
  an identifier, which \<open>repr\<close> puts between single quotes as it is).\<close>

fun string_of_nat :: "nat \<Rightarrow> string" where
  "string_of_nat n =
     (if n < 10 then [char_of (48 + n)]
      else string_of_nat (n div 10) @ [char_of (48 + n mod 10)])"

declare string_of_nat.simps [simp del]

definition string_of_int :: "int \<Rightarrow> string" where
  "string_of_int i = (if i < 0 then ''-'' @ string_of_nat (nat (- i)) else string_of_nat (nat i))"

definition ljust :: "nat \<Rightarrow> string \<Rightarrow> string" where
  "ljust n s = s @ replicate (n - length s) (CHR '' '')"

definition names_repr :: "plugin list \<Rightarrow> string" where
  "names_repr ps =
     ''['' @ str_join '', '' (map (\<lambda>p. [CHR 0x27] @ name p @ [CHR 0x27]) ps) @ '']''"

definition handler_name :: "handler \<Rightarrow> string" where
  "handler_name f = (case f of Warn \<Rightarrow> ''warn'' | Error \<Rightarrow> ''error'' | Debug \<Rightarrow> ''debug'')"

text \<open>
  What the run does besides changing the handler, oldest first: calls on the runner's own
  logger, lines printed, plugin classes instantiated, \<open>Run()\<close> called on an instance, and
  the server core started (\<open>Core()\<close>, \<open>load_plugins\<close>, \<open>block_for_fam_events\<close>) and shut
  down.
\<close>

datatype event = Log level string | Print string | Instantiate string | Call_Run string
  | Core_start | Core_shutdown

text \<open>
  The parsed options of \<open>Bcfg2.Options\<close>, with \<open>lint_plugins\<close> the plugin classes after the
  lint plugins of the loaded server plugins were added; and what the process finds around
  it: the result of \<open>get_termsize()\<close>, the lines of standard input, the chunker of the
  library's wrapper, and the exception with which starting the server core fails, if it
  does.
\<close>

record options =
  list_errors :: bool
  verbose :: bool
  stdin :: bool
  lint_errors :: "(string \<times> string) list option"
  lint_plugins :: "plugin list"

record env =
  termsize :: "(int \<times> int) option"
  stdin_lines :: "string list"
  wordsep_split :: "string \<Rightarrow> string list"
  core_fault :: "string option"

record CLI =
  files :: "string list option"
  errorhandler :: ErrorHandler
  serverlessplugins :: "plugin list"
  serverplugins :: "plugin list"
  trace :: "event list"

definition emit :: "event \<Rightarrow> CLI \<Rightarrow> CLI" where
  "emit e cli = cli\<lparr>trace := trace cli @ [e]\<rparr>"

definition get_errorhandler :: "env \<Rightarrow> options \<Rightarrow> ErrorHandler" where
  "get_errorhandler ev su = ErrorHandler_init (wordsep_split ev) (termsize ev) (lint_errors su)"

text \<open>\<open>CLI.__init__\<close>, from the point where the plugin list is complete.\<close>

definition CLI_init :: "env \<Rightarrow> options \<Rightarrow> CLI" where
  "CLI_init ev su =
     \<lparr>files = (if stdin su then Some (map strip (stdin_lines ev)) else None),
      errorhandler = get_errorhandler ev su,
      serverlessplugins = filter (\<lambda>p. \<not> server p) (lint_plugins su),
      serverplugins = filter server (lint_plugins su),
      trace = [Log DEBUG (''Running lint with plugins: '' @ names_repr (lint_plugins su))]\<rparr>"

text \<open>\<open>plugin(files=self.files, errorhandler=self.errorhandler).Run()\<close>, and the same with
  the core as first argument.\<close>

definition instantiate_and_Run :: "plugin \<Rightarrow> CLI \<Rightarrow> (CLI, unit) outcome" where
  "instantiate_and_Run p cli =
     (let cli1 = (emit (Instantiate (name p)) cli)\<lparr>errorhandler := Plugin_init p (errorhandler cli)\<rparr>;
          cli2 = emit (Call_Run (name p)) cli1
      in case Run_steps (Run p) (errorhandler cli2) of
           Returns u h \<Rightarrow> Returns u (cli2\<lparr>errorhandler := h\<rparr>)
         | Raises e h \<Rightarrow> Raises e (cli2\<lparr>errorhandler := h\<rparr>)
         | Diverges \<Rightarrow> Diverges)"

fun run_plugins :: "plugin list \<Rightarrow> CLI \<Rightarrow> (CLI, unit) outcome" where
  "run_plugins [] cli = Returns () cli"
| "run_plugins (p # ps) cli =
     (case instantiate_and_Run p (emit (Log DEBUG (''  Running '' @ name p)) cli) of
        Returns u cli' \<Rightarrow> run_plugins ps cli'
      | Raises e cli' \<Rightarrow> Raises e cli'
      | Diverges \<Rightarrow> Diverges)"

definition run_serverless_plugins :: "CLI \<Rightarrow> (CLI, unit) outcome" where
  "run_serverless_plugins cli =
     run_plugins (serverlessplugins cli)
       (emit (Log DEBUG (''Running serverless plugins: '' @ names_repr (serverlessplugins cli))) cli)"

text \<open>\<open>run_server_plugins\<close>: the \<open>finally\<close> clause shuts the core down whether the loop
  returned or raised.\<close>

definition run_server_plugins :: "env \<Rightarrow> CLI \<Rightarrow> (CLI, unit) outcome" where
  "run_server_plugins ev cli =
     (case core_fault ev of
        Some e \<Rightarrow> Raises e cli
      | None \<Rightarrow>
          (case run_plugins (serverplugins cli)
                  (emit (Log DEBUG (''Running server plugins: '' @ names_repr (serverplugins cli)))
                     (emit Core_start cli)) of
             Returns u cli' \<Rightarrow> Returns u (emit Core_shutdown cli')
           | Raises e cli' \<Rightarrow> Raises e (emit Core_shutdown cli')
           | Diverges \<Rightarrow> Diverges))"

text \<open>The three parts of \<open>CLI.run\<close>: the listing of \<open>--list-errors\<close>, the summary, and the
  method itself.\<close>

fun register_all :: "plugin list \<Rightarrow> ErrorHandler \<Rightarrow> ErrorHandler" where
  "register_all [] h = h"
| "register_all (p # ps) h = register_all ps (RegisterErrors (Errors p) h)"

definition print_errortypes :: "CLI \<Rightarrow> CLI" where
  "print_errortypes cli =
     fold (\<lambda>(err, f). emit (Print (ljust 35 err @ '' '' @ ljust 35 (handler_name f))))
       (errortypes (errorhandler cli))
       (emit (Print (ljust 35 ''Error name'' @ '' '' @ ljust 35 ''Handler'')) cli)"

definition report :: "options \<Rightarrow> CLI \<Rightarrow> (CLI, int) outcome" where
  "report su cli =
     (let cli1 = (if errors (errorhandler cli) \<noteq> 0 \<or> warnings (errorhandler cli) \<noteq> 0 \<or> verbose su
                  then emit (Print (string_of_int (warnings (errorhandler cli)) @ '' warnings''))
                         (emit (Print (string_of_int (errors (errorhandler cli)) @ '' errors'')) cli)
                  else cli)
      in if errors (errorhandler cli1) \<noteq> 0 then Returns 2 cli1
         else if warnings (errorhandler cli1) \<noteq> 0 then Returns 3 cli1
         else Returns 0 cli1)"

definition run :: "env \<Rightarrow> options \<Rightarrow> CLI \<Rightarrow> (CLI, int) outcome" where
  "run ev su cli =
     (if list_errors su then
        Returns 0 (print_errortypes
          (cli\<lparr>errorhandler :=
                 register_all (serverplugins cli @ serverlessplugins cli) (errorhandler cli)\<rparr>))
      else if serverplugins cli = [] \<and> serverlessplugins cli = [] then
        Returns 1 (emit (Log ERROR ''No lint plugins loaded!'') cli)
      else
        (case run_serverless_plugins cli of
           Diverges \<Rightarrow> Diverges
         | Raises e cli1 \<Rightarrow> Raises e cli1
         | Returns u cli1 \<Rightarrow>
             (if serverplugins cli1 \<noteq> [] then
                (if errors (errorhandler cli1) \<noteq> 0 then
                   report su (emit (Print
                     ''Serverless plugins encountered errors, skipping server plugins'') cli1)
                 else
                   (case run_server_plugins ev cli1 of
                      Diverges \<Rightarrow> Diverges
                    | Raises e cli2 \<Rightarrow> Raises e cli2
                    | Returns u cli2 \<Rightarrow> report su cli2))
              else report su cli1)))"


section \<open>Properties of the ErrorHandler\<close>

lemma logger_fields [simp]:
  "errors (logger lv s h) = errors h" "warnings (logger lv s h) = warnings h"
  "errortypes (logger lv s h) = errortypes h" "wrapper (logger lv s h) = wrapper h"
  "logged (logger lv s h) = logged h @ [(lv, s)]"
  by (simp_all add: logger_def)

lemma registered_append:
  "registered (h\<lparr>errortypes := errortypes h @ [(k, f)]\<rparr>) err = (registered h err \<or> k = err)"
  by (auto simp: registered_def map_add_def split: option.splits)

lemma RegisterErrors_fields [simp]:
  "errors (RegisterErrors d h) = errors h" "warnings (RegisterErrors d h) = warnings h"
  "wrapper (RegisterErrors d h) = wrapper h" "logged (RegisterErrors d h) = logged h"
  by (induction d h rule: RegisterErrors.induct; simp)+

lemma RegisterErrors_keeps:
  "registered h err \<Longrightarrow> map_of (errortypes (RegisterErrors d h)) err = map_of (errortypes h) err"
proof (induction d h rule: RegisterErrors.induct)
  case (1 h)
  then show ?case by simp
next
  case (2 k action rest h)
  show ?case
  proof (cases "registered h k")
    case True
    with 2 show ?thesis by simp
  next
    case False
    let ?h = "h\<lparr>errortypes := errortypes h @ [(k, action_handler action)]\<rparr>"
    from 2(3) have r: "registered ?h err" by (simp add: registered_append)
    from 2(3) have "map_of (errortypes ?h) err = map_of (errortypes h) err"
      by (auto simp: registered_def map_add_def split: option.splits)
    with False 2(1) r show ?thesis by simp
  qed
qed

lemma RegisterErrors_new:
  "\<not> registered h err \<Longrightarrow> map_of d err = Some a \<Longrightarrow>
   map_of (errortypes (RegisterErrors d h)) err = Some (action_handler a)"
proof (induction d h rule: RegisterErrors.induct)
  case (1 h)
  then show ?case by simp
next
  case (2 k action rest h)
  let ?h = "h\<lparr>errortypes := errortypes h @ [(k, action_handler action)]\<rparr>"
  show ?case
  proof (cases "k = err")
    case True
    with 2(4) have a: "action = a" by simp
    from True 2(3) have nr: "\<not> registered h k" by simp
    have r: "registered ?h err" using True by (simp add: registered_append)
    have "map_of (errortypes ?h) err = Some (action_handler a)"
      using True a 2(3) by (auto simp: registered_def map_add_def split: option.splits)
    with nr RegisterErrors_keeps[OF r, of rest] show ?thesis by simp
  next
    case False
    with 2(4) have m: "map_of rest err = Some a" by simp
    show ?thesis
    proof (cases "registered h k")
      case True
      with 2(2)[OF _ 2(3) m] show ?thesis by simp
    next
      case nr: False
      have "\<not> registered ?h err" using False 2(3) by (simp add: registered_append)
      with nr 2(1)[OF _ _ m] show ?thesis by simp
    qed
  qed
qed

text \<open>
  Claim C4. Registration is idempotent per kind, and the first caller wins: when a kind that
  is not yet registered is registered by a dict that maps it to action \<open>a1\<close>, and then
  again by a dict that maps it to another action \<open>a2\<close>, the handler recorded for the kind
  is the one of \<open>a1\<close>, after the first registration and still after the second.
\<close>

theorem RegisterErrors_first_registration_wins:
  assumes "\<not> registered h err" and "map_of d1 err = Some a1" and "map_of d2 err = Some a2"
  shows "map_of (errortypes (RegisterErrors d1 h)) err = Some (action_handler a1) \<and>
         map_of (errortypes (RegisterErrors d2 (RegisterErrors d1 h))) err = Some (action_handler a1)"
proof -
  have 1: "map_of (errortypes (RegisterErrors d1 h)) err = Some (action_handler a1)"
    using assms(1,2) by (rule RegisterErrors_new)
  then have "registered (RegisterErrors d1 h) err" by (simp add: registered_def)
  from RegisterErrors_keeps[OF this, of d2] 1 show ?thesis by simp
qed

theorem RegisterErrors_first_registration_wins_witness:
  "map_of (errortypes (RegisterErrors [(''dup-group'', ''warning'')]
      (RegisterErrors [(''dup-group'', ''error'')] (ErrorHandler_init wordsep_simple_split None None))))
     ''dup-group'' = Some Error \<and> action_handler ''warning'' = Warn"
proof -
  let ?h = "ErrorHandler_init wordsep_simple_split None None"
  have a: "\<not> registered ?h ''dup-group''" by (simp add: registered_def ErrorHandler_init_def)
  have b: "map_of [(''dup-group'', ''error'')] ''dup-group'' = Some ''error''" by simp
  have c: "map_of [(''dup-group'', ''warning'')] ''dup-group'' = Some ''warning''" by simp
  have d: "action_handler ''error'' = Error" by (simp add: action_handler_def)
  have e: "action_handler ''warning'' = Warn" by (simp add: action_handler_def)
  from RegisterErrors_first_registration_wins[OF a b c] d e show ?thesis by simp
qed

lemma log_lines_fields [simp]:
  "errors (snd (log_lines lv p fl ls h)) = errors h"
  "warnings (snd (log_lines lv p fl ls h)) = warnings h"
  "errortypes (snd (log_lines lv p fl ls h)) = errortypes h"
  "wrapper (snd (log_lines lv p fl ls h)) = wrapper h"
  by (induction lv p fl ls h rule: log_lines.induct; simp)+

lemma log_lines_flag: "fst (log_lines lv p fl ls h) = (fl \<and> ls = [])"
  by (induction lv p fl ls h rule: log_lines.induct) auto

lemma log_lines_not_first:
  "logged (snd (log_lines lv p False ls h)) = logged h @ map (Pair lv) ls"
  by (induction ls arbitrary: h) auto

lemma log_lines_logged:
  "logged (snd (log_lines lv p fl ls h)) =
     logged h @ map (Pair lv)
       (if fl then (case ls of [] \<Rightarrow> [] | l # r \<Rightarrow> (p @ lstrip l) # r) else ls)"
  by (cases ls; cases fl) (simp_all add: log_lines_not_first)

lemma log_rawlines_returns:
  "\<forall>r \<in> set rs. wrapper h r \<noteq> None \<Longrightarrow> \<exists>h'. log_rawlines lv p fl rs h = Some h'"
proof (induction rs arbitrary: fl h)
  case Nil
  then show ?case by simp
next
  case (Cons r rs)
  then obtain ls where ls: "wrapper h r = Some ls" by auto
  obtain fl' h1 where s: "log_lines lv p fl ls h = (fl', h1)" by (cases "log_lines lv p fl ls h")
  then have "wrapper h1 = wrapper h" using log_lines_fields(4)[of lv p fl ls h] by simp
  with Cons.prems have "\<forall>r \<in> set rs. wrapper h1 r \<noteq> None" by simp
  from Cons.IH[OF this] ls s show ?case by simp
qed

lemma log_rawlines_fields:
  "log_rawlines lv p fl rs h = Some h' \<Longrightarrow>
   errors h' = errors h \<and> warnings h' = warnings h \<and> errortypes h' = errortypes h \<and>
   wrapper h' = wrapper h"
proof (induction rs arbitrary: fl h)
  case Nil
  then show ?case by simp
next
  case (Cons r rs)
  from Cons.prems obtain ls where ls: "wrapper h r = Some ls" by (auto split: option.splits)
  obtain fl' h1 where s: "log_lines lv p fl ls h = (fl', h1)" by (cases "log_lines lv p fl ls h")
  with Cons.prems ls have "log_rawlines lv p fl' rs h1 = Some h'" by simp
  from Cons.IH[OF this] have "errors h' = errors h1 \<and> warnings h' = warnings h1 \<and>
     errortypes h' = errortypes h1 \<and> wrapper h' = wrapper h1" .
  moreover have "h1 = snd (log_lines lv p fl ls h)" using s by simp
  ultimately show ?case by simp
qed

lemma log_rawlines_logged:
  "those (map (wrapper h) rs) = Some wls \<Longrightarrow>
   \<exists>h'. log_rawlines lv p fl rs h = Some h' \<and>
     logged h' = logged h @ map (Pair lv)
       (if fl then (case concat wls of [] \<Rightarrow> [] | l # r \<Rightarrow> (p @ lstrip l) # r)
        else concat wls)"
proof (induction rs arbitrary: fl h wls)
  case Nil
  then show ?case by simp
next
  case (Cons r rs)
  from Cons.prems obtain ls wls' where ls: "wrapper h r = Some ls"
    and w': "those (map (wrapper h) rs) = Some wls'" and wls: "wls = ls # wls'"
    by (auto split: option.splits)
  obtain fl' h1 where s: "log_lines lv p fl ls h = (fl', h1)" by (cases "log_lines lv p fl ls h")
  have h1: "h1 = snd (log_lines lv p fl ls h)" and fl': "fl' = (fl \<and> ls = [])"
    using s log_lines_flag[of lv p fl ls h] by simp_all
  have "wrapper h1 = wrapper h" using h1 by simp
  with w' have "those (map (wrapper h1) rs) = Some wls'" by simp
  from Cons.IH[OF this, of fl'] obtain h' where
    r: "log_rawlines lv p fl' rs h1 = Some h'" and
    l: "logged h' = logged h1 @ map (Pair lv)
       (if fl' then (case concat wls' of [] \<Rightarrow> [] | l # r \<Rightarrow> (p @ lstrip l) # r)
        else concat wls')" by blast
  have "log_rawlines lv p fl (r # rs) h = Some h'" using ls s r by simp
  moreover have "logged h' = logged h @ map (Pair lv)
       (if fl then (case concat wls of [] \<Rightarrow> [] | l # r \<Rightarrow> (p @ lstrip l) # r)
        else concat wls)"
    using l h1 fl' wls by (cases ls) (auto simp: log_lines_logged)
  ultimately show ?case by blast
qed

lemma log_rawlines_level:
  "log_rawlines lv p fl rs h = Some h' \<Longrightarrow>
   \<exists>new. logged h' = logged h @ new \<and> (\<forall>e \<in> set new. fst e = lv)"
proof (induction rs arbitrary: fl h)
  case Nil
  then show ?case by simp
next
  case (Cons r rs)
  from Cons.prems obtain ls where ls: "wrapper h r = Some ls" by (auto split: option.splits)
  obtain fl' h1 where s: "log_lines lv p fl ls h = (fl', h1)" by (cases "log_lines lv p fl ls h")
  with Cons.prems ls have "log_rawlines lv p fl' rs h1 = Some h'" by simp
  from Cons.IH[OF this] obtain new where n: "logged h' = logged h1 @ new" "\<forall>e \<in> set new. fst e = lv"
    by blast
  have "h1 = snd (log_lines lv p fl ls h)" using s by simp
  then have "logged h1 = logged h @ map (Pair lv)
       (if fl then (case ls of [] \<Rightarrow> [] | l # r \<Rightarrow> (p @ lstrip l) # r) else ls)"
    by (simp add: log_lines_logged)
  with n show ?case by (auto split: list.splits if_splits)
qed

lemma error_effect:
  assumes "\<forall>r \<in> set (splitlines msg). wrapper h r \<noteq> None"
  shows "\<exists>h'. error msg h = Some h' \<and> errors h' = errors h + 1 \<and> warnings h' = warnings h \<and>
           errortypes h' = errortypes h \<and> wrapper h' = wrapper h \<and>
           (\<exists>new. logged h' = logged h @ new \<and> (\<forall>e \<in> set new. fst e = ERROR))"
proof -
  let ?h = "h\<lparr>errors := errors h + 1\<rparr>"
  from assms have "\<forall>r \<in> set (splitlines msg). wrapper ?h r \<noteq> None" by simp
  from log_rawlines_returns[OF this] obtain h' where
    r: "log_rawlines ERROR ''ERROR: '' True (splitlines msg) ?h = Some h'" by blast
  from log_rawlines_fields[OF r] log_rawlines_level[OF r] r show ?thesis
    by (simp add: error_def ErrorHandler_log_def)
qed

lemma warn_effect:
  assumes "\<forall>r \<in> set (splitlines msg). wrapper h r \<noteq> None"
  shows "\<exists>h'. warn msg h = Some h' \<and> errors h' = errors h \<and> warnings h' = warnings h + 1 \<and>
           errortypes h' = errortypes h \<and> wrapper h' = wrapper h \<and>
           (\<exists>new. logged h' = logged h @ new \<and> (\<forall>e \<in> set new. fst e = WARNING))"
proof -
  let ?h = "h\<lparr>warnings := warnings h + 1\<rparr>"
  from assms have "\<forall>r \<in> set (splitlines msg). wrapper ?h r \<noteq> None" by simp
  from log_rawlines_returns[OF this] obtain h' where
    r: "log_rawlines WARNING ''WARNING: '' True (splitlines msg) ?h = Some h'" by blast
  from log_rawlines_fields[OF r] log_rawlines_level[OF r] r show ?thesis
    by (simp add: warn_def ErrorHandler_log_def)
qed

lemma debug_effect:
  assumes "\<forall>r \<in> set (splitlines msg). wrapper h r \<noteq> None"
  shows "\<exists>h'. debug msg h = Some h' \<and> errors h' = errors h \<and> warnings h' = warnings h \<and>
           errortypes h' = errortypes h \<and> wrapper h' = wrapper h \<and>
           (\<exists>new. logged h' = logged h @ new \<and> (\<forall>e \<in> set new. fst e = DEBUG))"
proof -
  from log_rawlines_returns[OF assms] obtain h' where
    r: "log_rawlines DEBUG '''' True (splitlines msg) h = Some h'" by blast
  from log_rawlines_fields[OF r] log_rawlines_level[OF r] r show ?thesis
    by (simp add: debug_def ErrorHandler_log_def)
qed

text \<open>What a handler call leaves of the counters when it returns at all.\<close>

lemma call_handler_counts:
  assumes "call_handler f msg h = Some h'"
  shows "errors h' = errors h + (if f = Error then 1 else 0) \<and>
         warnings h' = warnings h + (if f = Warn then 1 else 0) \<and>
         errortypes h' = errortypes h \<and> wrapper h' = wrapper h"
  using assms
  by (cases f) (auto simp: error_def warn_def debug_def ErrorHandler_log_def
                     dest!: log_rawlines_fields)

lemma dispatch_registered:
  assumes "map_of (errortypes h) err = Some f"
    and "\<forall>r \<in> set (splitlines msg). wrapper h r \<noteq> None"
  shows "\<exists>h' new. dispatch err msg h = Some h' \<and>
           errors h' = errors h + (if f = Error then 1 else 0) \<and>
           warnings h' = warnings h + (if f = Warn then 1 else 0) \<and>
           errortypes h' = errortypes h \<and> wrapper h' = wrapper h \<and>
           logged h' = logged h @ new @ [(DEBUG, ''    ('' @ err @ '')'')] \<and>
           (\<forall>e \<in> set new. fst e = (case f of Warn \<Rightarrow> WARNING | Error \<Rightarrow> ERROR | Debug \<Rightarrow> DEBUG))"
proof (cases f)
  case Warn
  from warn_effect[OF assms(2)] obtain h1 new where
    "warn msg h = Some h1" "errors h1 = errors h" "warnings h1 = warnings h + 1"
    "errortypes h1 = errortypes h" "wrapper h1 = wrapper h"
    "logged h1 = logged h @ new" "\<forall>e \<in> set new. fst e = WARNING" by blast
  with assms(1) Warn show ?thesis by (simp add: dispatch_def)
next
  case Error
  from error_effect[OF assms(2)] obtain h1 new where
    "error msg h = Some h1" "errors h1 = errors h + 1" "warnings h1 = warnings h"
    "errortypes h1 = errortypes h" "wrapper h1 = wrapper h"
    "logged h1 = logged h @ new" "\<forall>e \<in> set new. fst e = ERROR" by blast
  with assms(1) Error show ?thesis by (simp add: dispatch_def)
next
  case Debug
  from debug_effect[OF assms(2)] obtain h1 new where
    "debug msg h = Some h1" "errors h1 = errors h" "warnings h1 = warnings h"
    "errortypes h1 = errortypes h" "wrapper h1 = wrapper h"
    "logged h1 = logged h @ new" "\<forall>e \<in> set new. fst e = DEBUG" by blast
  with assms(1) Debug show ?thesis by (simp add: dispatch_def)
qed

lemma dispatch_unknown:
  assumes "map_of (errortypes h) err = None"
    and "\<forall>r \<in> set (splitlines msg). wrapper h r \<noteq> None"
  shows "\<exists>h' new. dispatch err msg h = Some h' \<and>
           errors h' = errors h + 1 \<and> warnings h' = warnings h \<and>
           errortypes h' = errortypes h \<and> wrapper h' = wrapper h \<and>
           logged h' = logged h @ new @ [(WARNING, ''Unknown error '' @ err)] \<and>
           (\<forall>e \<in> set new. fst e = ERROR)"
proof -
  from error_effect[OF assms(2)] obtain h1 new where
    "error msg h = Some h1" "errors h1 = errors h + 1" "warnings h1 = warnings h"
    "errortypes h1 = errortypes h" "wrapper h1 = wrapper h"
    "logged h1 = logged h @ new" "\<forall>e \<in> set new. fst e = ERROR" by blast
  with assms(1) show ?thesis by (simp add: dispatch_def)
qed

lemma dispatch_counts:
  assumes "dispatch err msg h = Some h'"
  shows "errors h' = errors h + (if resolve h err = Error then 1 else 0) \<and>
         warnings h' = warnings h + (if resolve h err = Warn then 1 else 0) \<and>
         errortypes h' = errortypes h \<and> wrapper h' = wrapper h"
proof (cases "map_of (errortypes h) err")
  case None
  with assms obtain h1 where e: "call_handler Error msg h = Some h1"
    and h': "h' = logger WARNING (''Unknown error '' @ err) h1"
    by (auto simp: dispatch_def split: option.splits)
  from call_handler_counts[OF e] h' None show ?thesis by (simp add: resolve_def)
next
  case (Some f)
  with assms obtain h1 where e: "call_handler f msg h = Some h1"
    and h': "h' = logger DEBUG (''    ('' @ err @ '')'') h1"
    by (auto simp: dispatch_def split: option.splits)
  from call_handler_counts[OF e] h' Some show ?thesis by (simp add: resolve_def)
qed

lemma dispatch_returns:
  assumes "\<forall>r \<in> set (splitlines msg). wrapper h r \<noteq> None"
  shows "\<exists>h'. dispatch err msg h = Some h'"
proof (cases "map_of (errortypes h) err")
  case None
  from dispatch_unknown[OF this assms] show ?thesis by blast
next
  case (Some f)
  from dispatch_registered[OF this assms] show ?thesis by blast
qed

lemma resolve_cong:
  "errortypes h' = errortypes h \<Longrightarrow> resolve h' = resolve h"
  by (rule ext) (simp add: resolve_def)

lemma dispatch_all_counts:
  assumes "dispatch_all evs h = Some h'"
  shows "errors h' = errors h + int (length (filter (\<lambda>e. resolve h (fst e) = Error) evs)) \<and>
         warnings h' = warnings h + int (length (filter (\<lambda>e. resolve h (fst e) = Warn) evs)) \<and>
         errortypes h' = errortypes h \<and> wrapper h' = wrapper h"
  using assms
proof (induction evs arbitrary: h)
  case Nil
  then show ?case by simp
next
  case (Cons ev evs)
  obtain err msg where ev: "ev = (err, msg)" by (cases ev)
  with Cons.prems obtain h1 where d: "dispatch err msg h = Some h1"
    and r: "dispatch_all evs h1 = Some h'" by (auto split: option.splits)
  from dispatch_counts[OF d] have
    c: "errors h1 = errors h + (if resolve h err = Error then 1 else 0)"
       "warnings h1 = warnings h + (if resolve h err = Warn then 1 else 0)"
       "errortypes h1 = errortypes h" "wrapper h1 = wrapper h" by simp_all
  from resolve_cong[OF c(3)] have rs: "resolve h1 = resolve h" .
  from Cons.IH[OF r] c rs ev show ?case by simp
qed

lemma dispatch_all_returns:
  assumes "\<forall>e \<in> set evs. \<forall>r \<in> set (splitlines (snd e)). wrapper h r \<noteq> None"
  shows "\<exists>h'. dispatch_all evs h = Some h'"
  using assms
proof (induction evs arbitrary: h)
  case Nil
  then show ?case by simp
next
  case (Cons ev evs)
  obtain err msg where ev: "ev = (err, msg)" by (cases ev)
  with Cons.prems have "\<forall>r \<in> set (splitlines msg). wrapper h r \<noteq> None" by simp
  from dispatch_returns[OF this] obtain h1 where d: "dispatch err msg h = Some h1" by blast
  from dispatch_counts[OF d] have "wrapper h1 = wrapper h" by simp
  with Cons.prems have "\<forall>e \<in> set evs. \<forall>r \<in> set (splitlines (snd e)). wrapper h1 r \<noteq> None"
    by simp
  from Cons.IH[OF this] d ev show ?case by simp
qed

lemma ErrorHandler_init_fields [simp]:
  "errors (ErrorHandler_init sp ts cfg) = 0" "warnings (ErrorHandler_init sp ts cfg) = 0"
  "logged (ErrorHandler_init sp ts cfg) = []"
  by (simp_all add: ErrorHandler_init_def Let_def split: option.splits)

lemma passthrough_wrapper [simp]:
  "wrapper (ErrorHandler_init sp None cfg) = (\<lambda>s. Some [s])"
  by (simp add: ErrorHandler_init_def Let_def split: option.splits)

text \<open>
  Claim C5, as stated, fails: a kind registered with the action \<open>silent\<close>, which names
  neither the warning nor the error handling, is not classified as an error, and a
  dispatch of it leaves the error counter at 0.
\<close>

theorem unrecognised_action_counterexample:
  "\<not> str_in ''warn'' ''silent'' \<and> \<not> str_in ''err'' ''silent'' \<and>
   map_of (errortypes (RegisterErrors [(''stale-path'', ''silent'')]
      (ErrorHandler_init wordsep_simple_split None None))) ''stale-path'' = Some Debug \<and>
   map_option errors (dispatch ''stale-path'' ''old entry''
      (RegisterErrors [(''stale-path'', ''silent'')]
        (ErrorHandler_init wordsep_simple_split None None))) = Some 0"
  by (simp add: dispatch_def ErrorHandler_init_def Let_def registered_def debug_def
      action_handler_def ErrorHandler_log_def splitlines_def is_linebreak_def lstrip_def
      isspace_def logger_def)

text \<open>
  Claim C5, amended. A kind registered with an action string that contains neither
  \<open>warn\<close> nor \<open>err\<close> is given the silent handler \<open>debug\<close>: a later dispatch of it
  returns (whenever the wrapper returns the lines of the message), changes neither
  counter, and logs at debug level only.
\<close>

theorem unrecognised_action_is_silent:
  assumes "\<not> str_in ''warn'' a" and "\<not> str_in ''err'' a"
    and "\<not> registered h err" and "map_of d err = Some a"
    and "\<forall>r \<in> set (splitlines msg). wrapper h r \<noteq> None"
  shows "map_of (errortypes (RegisterErrors d h)) err = Some Debug \<and>
         (\<exists>h' new. dispatch err msg (RegisterErrors d h) = Some h' \<and>
            errors h' = errors h \<and> warnings h' = warnings h \<and>
            logged h' = logged h @ new \<and> (\<forall>e \<in> set new. fst e = DEBUG))"
proof -
  let ?h = "RegisterErrors d h"
  have ah: "action_handler a = Debug" using assms(1,2) by (simp add: action_handler_def)
  with RegisterErrors_new[OF assms(3,4)] have m: "map_of (errortypes ?h) err = Some Debug"
    by simp
  from assms(5) have w: "\<forall>r \<in> set (splitlines msg). wrapper ?h r \<noteq> None" by simp
  from dispatch_registered[OF m w] obtain h' new where
    "dispatch err msg ?h = Some h'" "errors h' = errors ?h" "warnings h' = warnings ?h"
    "logged h' = logged ?h @ new @ [(DEBUG, ''    ('' @ err @ '')'')]"
    "\<forall>e \<in> set new. fst e = DEBUG" by auto
  then have "dispatch err msg ?h = Some h' \<and> errors h' = errors h \<and> warnings h' = warnings h \<and>
     logged h' = logged h @ (new @ [(DEBUG, ''    ('' @ err @ '')'')]) \<and>
     (\<forall>e \<in> set (new @ [(DEBUG, ''    ('' @ err @ '')'')]). fst e = DEBUG)" by simp
  with m show ?thesis by blast
qed

theorem unrecognised_action_is_silent_witness:
  "map_of (errortypes (RegisterErrors [(''stale-path'', ''silent'')]
      (ErrorHandler_init wordsep_simple_split None None))) ''stale-path'' = Some Debug \<and>
   map_option logged (dispatch ''stale-path'' ''old entry''
      (RegisterErrors [(''stale-path'', ''silent'')]
        (ErrorHandler_init wordsep_simple_split None None))) =
     Some [(DEBUG, ''old entry''), (DEBUG, ''    (stale-path)'')]"
proof -
  let ?h = "ErrorHandler_init wordsep_simple_split None None"
  have a: "\<not> str_in ''warn'' ''silent''" and b: "\<not> str_in ''err'' ''silent''" by simp_all
  have c: "\<not> registered ?h ''stale-path''"
    by (simp add: registered_def ErrorHandler_init_def Let_def)
  have d: "map_of [(''stale-path'', ''silent'')] ''stale-path'' = Some ''silent''" by simp
  have e: "\<forall>r \<in> set (splitlines ''old entry''). wrapper ?h r \<noteq> None" by simp
  have f: "map_option logged (dispatch ''stale-path'' ''old entry''
      (RegisterErrors [(''stale-path'', ''silent'')] ?h)) =
     Some [(DEBUG, ''old entry''), (DEBUG, ''    (stale-path)'')]"
    by (simp add: dispatch_def ErrorHandler_init_def Let_def registered_def debug_def
      action_handler_def ErrorHandler_log_def splitlines_def is_linebreak_def lstrip_def
      isspace_def logger_def)
  from unrecognised_action_is_silent[OF a b c d e] f show ?thesis by blast
qed

text \<open>
  Claim C7. Take a fresh handler (built by \<open>__init__\<close>, with any registrations made on it)
  and any finite series of dispatch events on which the wrapper returns. The series
  returns; after it \<open>errors\<close> is the number of events whose kind resolves to the error
  handler (a kind that is not registered does), and \<open>warnings\<close> is the number of events
  whose kind resolves to the warning handler. No operation of the handler lowers a
  counter: registration leaves both alone, and a call of a handler method or a dispatch
  that returns leaves each where it was or one higher.
\<close>

theorem counters_count_dispatched_events:
  assumes "h = RegisterErrors d (ErrorHandler_init sp ts cfg)"
    and "\<forall>e \<in> set evs. \<forall>r \<in> set (splitlines (snd e)). wrapper h r \<noteq> None"
  shows "(\<exists>h'. dispatch_all evs h = Some h' \<and>
            errors h' = int (length (filter (\<lambda>e. resolve h (fst e) = Error) evs)) \<and>
            warnings h' = int (length (filter (\<lambda>e. resolve h (fst e) = Warn) evs))) \<and>
         errors (RegisterErrors d' g) = errors g \<and> warnings (RegisterErrors d' g) = warnings g \<and>
         (\<forall>g'. call_handler f msg g = Some g' \<longrightarrow>
            errors g \<le> errors g' \<and> warnings g \<le> warnings g') \<and>
         (\<forall>g'. dispatch err msg g = Some g' \<longrightarrow>
            errors g \<le> errors g' \<and> errors g' \<le> errors g + 1 \<and>
            warnings g \<le> warnings g' \<and> warnings g' \<le> warnings g + 1)"
proof -
  from dispatch_all_returns[OF assms(2)] obtain h' where r: "dispatch_all evs h = Some h'"
    by blast
  have z: "errors h = 0" "warnings h = 0" using assms(1) by simp_all
  from dispatch_all_counts[OF r] z have
    "errors h' = int (length (filter (\<lambda>e. resolve h (fst e) = Error) evs)) \<and>
     warnings h' = int (length (filter (\<lambda>e. resolve h (fst e) = Warn) evs))" by simp
  with r have 1: "\<exists>h'. dispatch_all evs h = Some h' \<and>
            errors h' = int (length (filter (\<lambda>e. resolve h (fst e) = Error) evs)) \<and>
            warnings h' = int (length (filter (\<lambda>e. resolve h (fst e) = Warn) evs))" by blast
  have 2: "\<forall>g'. dispatch err msg g = Some g' \<longrightarrow>
            errors g \<le> errors g' \<and> errors g' \<le> errors g + 1 \<and>
            warnings g \<le> warnings g' \<and> warnings g' \<le> warnings g + 1"
    by (auto dest!: dispatch_counts)
  have 3: "\<forall>g'. call_handler f msg g = Some g' \<longrightarrow>
            errors g \<le> errors g' \<and> warnings g \<le> warnings g'"
    by (auto dest!: call_handler_counts)
  from 1 2 3 show ?thesis by simp
qed

theorem counters_count_dispatched_events_witness:
  "map_option errors (dispatch_all
      [(''dup-group'', ''a''), (''stale-path'', ''b''), (''unknown'', ''c''), (''quiet'', ''d'')]
      (RegisterErrors [(''dup-group'', ''error''), (''stale-path'', ''warning''), (''quiet'', ''silent'')]
        (ErrorHandler_init wordsep_simple_split None None))) = Some 2 \<and>
   map_option warnings (dispatch_all
      [(''dup-group'', ''a''), (''stale-path'', ''b''), (''unknown'', ''c''), (''quiet'', ''d'')]
      (RegisterErrors [(''dup-group'', ''error''), (''stale-path'', ''warning''), (''quiet'', ''silent'')]
        (ErrorHandler_init wordsep_simple_split None None))) = Some 1"
proof -
  let ?d = "[(''dup-group'', ''error''), (''stale-path'', ''warning''), (''quiet'', ''silent'')]"
  let ?h = "RegisterErrors ?d (ErrorHandler_init wordsep_simple_split None None)"
  let ?evs = "[(''dup-group'', ''a''), (''stale-path'', ''b''), (''unknown'', ''c''), (''quiet'', ''d'')]"
  have w: "\<forall>e \<in> set ?evs. \<forall>r \<in> set (splitlines (snd e)). wrapper ?h r \<noteq> None" by simp
  have et: "errortypes ?h = [(''dup-group'', Error), (''stale-path'', Warn), (''quiet'', Debug)]"
    by (simp add: ErrorHandler_init_def Let_def registered_def action_handler_def)
  have ce: "length (filter (\<lambda>e. resolve ?h (fst e) = Error) ?evs) = 2"
    unfolding resolve_def et by simp
  have cw: "length (filter (\<lambda>e. resolve ?h (fst e) = Warn) ?evs) = 1"
    unfolding resolve_def et by simp
  from counters_count_dispatched_events[OF refl w]
  obtain h' where "dispatch_all ?evs ?h = Some h'"
    "errors h' = int (length (filter (\<lambda>e. resolve ?h (fst e) = Error) ?evs))"
    "warnings h' = int (length (filter (\<lambda>e. resolve ?h (fst e) = Warn) ?evs))" by blast
  with ce cw show ?thesis by simp
qed

section \<open>Properties of the text wrapper\<close>











lemma wrap_line_eq:
  assumes "fill_line (w - 2) [] 0
             (if strip (hd chunks) = [] \<and> lines \<noteq> [] then tl chunks else chunks) = (cur, len, rest)"
    and "(if rest \<noteq> [] \<and> int (length (hd rest)) > w - 2
          then handle_long_word rest cur len (w - 2) else (rest, cur)) = (chunks3, cur3)"
    and "cur4 = (if cur3 \<noteq> [] \<and> strip (last cur3) = [] then butlast cur3 else cur3)"
  shows "wrap_line w chunks lines =
           (chunks3, if cur4 \<noteq> [] then lines @ [''  '' @ concat cur4] else lines)"
proof -
  have two: "int (length ''  '') = 2" by simp
  show ?thesis
    unfolding wrap_line_def Let_def two assms(1) prod.case assms(2) assms(3) by (rule refl)
qed

lemma wrap_line_cases:
  obtains cur len rest chunks3 cur3 cur4 where
    "fill_line (w - 2) [] 0
       (if strip (hd chunks) = [] \<and> lines \<noteq> [] then tl chunks else chunks) = (cur, len, rest)"
    "(if rest \<noteq> [] \<and> int (length (hd rest)) > w - 2
      then handle_long_word rest cur len (w - 2) else (rest, cur)) = (chunks3, cur3)"
    "cur4 = (if cur3 \<noteq> [] \<and> strip (last cur3) = [] then butlast cur3 else cur3)"
    "wrap_line w chunks lines =
       (chunks3, if cur4 \<noteq> [] then lines @ [''  '' @ concat cur4] else lines)"
proof -
  obtain cur len rest where f: "fill_line (w - 2) [] 0
       (if strip (hd chunks) = [] \<and> lines \<noteq> [] then tl chunks else chunks) = (cur, len, rest)"
    using prod_cases3 by blast
  obtain chunks3 cur3 where r: "(if rest \<noteq> [] \<and> int (length (hd rest)) > w - 2
      then handle_long_word rest cur len (w - 2) else (rest, cur)) = (chunks3, cur3)"
    using prod.exhaust by blast
  from that[OF f r refl wrap_line_eq[OF f r refl]] show ?thesis .
qed

lemma wrap_line_lines:
  "snd (wrap_line w chunks lines) = lines \<or>
   (\<exists>cur. cur \<noteq> [] \<and> snd (wrap_line w chunks lines) = lines @ [''  '' @ concat cur])"
proof -
  obtain chunks3 cur4 where "wrap_line w chunks lines =
       (chunks3, if cur4 \<noteq> [] then lines @ [''  '' @ concat cur4] else lines)"
    by (rule wrap_line_cases[of w chunks lines]) blast
  then show ?thesis by (cases "cur4 = []") auto
qed

lemma wrap_chunks_indent:
  assumes "wrap_chunks w chunks lines = Some r" and "\<forall>l \<in> set lines. take 2 l = ''  ''"
  shows "\<forall>l \<in> set r. take 2 l = ''  ''"
  using assms
proof (induction arbitrary: rule: wrap_chunks.raw_induct[rotated 1, consumes 1])
  case (1 wrap_chunks' w chunks lines r)
  show ?case
  proof (cases "chunks = []")
    case True
    with 1 show ?thesis by simp
  next
    case False
    obtain chunks' lines' where s: "wrap_line w chunks lines = (chunks', lines')"
      by (cases "wrap_line w chunks lines")
    with 1(2) False have r: "wrap_chunks' w chunks' lines' = Some r" by simp
    from wrap_line_lines[of w chunks lines] s 1(3)
    have "\<forall>l \<in> set lines'. take 2 l = ''  ''" by auto
    from 1(1)[OF r this] show ?thesis .
  qed
qed

lemma TextWrapper_wrap_indent:
  "TextWrapper_wrap sp w text = Some ls \<Longrightarrow> \<forall>l \<in> set ls. take 2 l = ''  ''"
  using wrap_chunks_indent[of w _ "[]" ls]
  by (auto simp: TextWrapper_wrap_def split: if_splits)

text \<open>With a width of 1 the loop can go on for ever: an empty chunk left at the start of
  the text is never consumed.\<close>

lemma wrap_line_width_1: "wrap_line 1 [''''] [] = ([''''], [])"
  by (simp add: wrap_line_def Let_def slice_bound_def rfind_def strip_def lstrip_def rstrip_def)

lemma wrap_chunks_width_1: "wrap_chunks 1 [''''] [] = None"
proof -
  have "wrap_chunks w chunks lines = Some r \<Longrightarrow> \<not> (w = 1 \<and> chunks = [''''] \<and> lines = [])"
    for w chunks lines r
  proof (induction arbitrary: rule: wrap_chunks.raw_induct[rotated 1, consumes 1])
    case (1 wrap_chunks' w chunks lines r)
    show ?case
    proof
      assume a: "w = 1 \<and> chunks = [''''] \<and> lines = []"
      with 1(2) have "wrap_chunks' 1 [''''] [] = Some r" by (simp add: wrap_line_width_1)
      from 1(1)[OF this] show False by simp
    qed
  qed
  then show ?thesis by (cases "wrap_chunks 1 [''''] []") auto
qed











section \<open>Properties of message rendering\<close>




lemma lstrip_no_leading_space: "lstrip l = [] \<or> \<not> isspace (hd (lstrip l))"
  unfolding lstrip_def using hd_dropWhile[of isspace l] by blast

lemma those_map_results:
  "those (map f rs) = Some wls \<Longrightarrow> \<forall>x \<in> set wls. \<exists>r \<in> set rs. f r = Some x"
proof (induction rs arbitrary: wls)
  case Nil
  then show ?case by simp
next
  case (Cons r rs)
  from Cons.prems obtain y ys where y: "f r = Some y" "those (map f rs) = Some ys" "wls = y # ys"
    by (auto split: option.splits)
  from Cons.IH[OF y(2)] y(1,3) show ?case by auto
qed

lemma those_passthrough: "those (map (\<lambda>s. Some [s]) rs) = Some (map (\<lambda>s. [s]) rs)"
  by (induction rs) auto

lemma concat_singletons: "concat (map (\<lambda>s. [s]) rs) = rs"
  by (induction rs) auto




text \<open>
  Claim C10, as stated, fails for a handler built without a terminal: the raw lines are
  passed through as they are, and the continuation line of the message has no two-space
  indent.
\<close>

theorem continuation_indent_counterexample:
  "wrapper (ErrorHandler_init wordsep_simple_split None None) ''b'' = Some [''b''] \<and>
   map_option logged (error (''a'' @ ''\<newline>'' @ ''b'')
      (ErrorHandler_init wordsep_simple_split None None)) =
     Some [(ERROR, ''ERROR: a''), (ERROR, ''b'')] \<and>
   take 2 ''b'' \<noteq> ''  ''"
  by (simp add: error_def ErrorHandler_log_def splitlines_def is_linebreak_def lstrip_def
      isspace_def logger_def ErrorHandler_init_def)

text \<open>
  Claim C10, amended. For every message on whose raw lines the wrapper returns, logging
  returns. The first line logged is the prefix followed by the first wrapped line with all
  its leading whitespace stripped, the wrapper's indent included, whether or not the
  message itself begins with whitespace; every later wrapped line is logged exactly as the
  wrapper returned it. When the wrapper is the library's (a terminal width was found) each
  of these lines begins with the two-space indent; when it is the pass-through (no
  terminal) they are the raw lines of the message, with no indent added.
\<close>

theorem first_line_stripped_rest_as_wrapped:
  assumes "those (map (wrapper h) (splitlines msg)) = Some wls"
  shows "\<exists>h'. ErrorHandler_log msg lv prefix h = Some h' \<and>
           (case concat wls of
              [] \<Rightarrow> logged h' = logged h
            | l # r \<Rightarrow> logged h' = logged h @ (lv, prefix @ lstrip l) # map (Pair lv) r \<and>
                       (lstrip l = [] \<or> \<not> isspace (hd (lstrip l)))) \<and>
           (wrapper h = TextWrapper_wrap sp w \<longrightarrow> (\<forall>x \<in> set (concat wls). take 2 x = ''  '')) \<and>
           (wrapper h = (\<lambda>s. Some [s]) \<longrightarrow> concat wls = splitlines msg)"
proof -
  from log_rawlines_logged[OF assms, of lv prefix True] obtain h' where
    r: "log_rawlines lv prefix True (splitlines msg) h = Some h'" and
    l: "logged h' = logged h @ map (Pair lv)
         (case concat wls of [] \<Rightarrow> [] | l # r \<Rightarrow> (prefix @ lstrip l) # r)" by auto
  define cw where "cw = concat wls"
  have l': "logged h' = logged h @ map (Pair lv)
         (case cw of [] \<Rightarrow> [] | l # r \<Rightarrow> (prefix @ lstrip l) # r)"
    using l unfolding cw_def .
  have "case cw of
              [] \<Rightarrow> logged h' = logged h
            | l # r \<Rightarrow> logged h' = logged h @ (lv, prefix @ lstrip l) # map (Pair lv) r \<and>
                       (lstrip l = [] \<or> \<not> isspace (hd (lstrip l)))"
  proof (cases cw)
    case Nil
    with l' show ?thesis by simp
  next
    case (Cons x xs)
    with l' lstrip_no_leading_space[of x] show ?thesis by simp
  qed
  then have 1: "case concat wls of
              [] \<Rightarrow> logged h' = logged h
            | l # r \<Rightarrow> logged h' = logged h @ (lv, prefix @ lstrip l) # map (Pair lv) r \<and>
                       (lstrip l = [] \<or> \<not> isspace (hd (lstrip l)))"
    unfolding cw_def .
  have 2: "\<forall>x \<in> set (concat wls). take 2 x = ''  ''" if tw: "wrapper h = TextWrapper_wrap sp w"
  proof
    fix x assume "x \<in> set (concat wls)"
    then obtain ls where ls: "ls \<in> set wls" "x \<in> set ls" by auto
    from those_map_results[OF assms] ls(1) obtain raw where "wrapper h raw = Some ls" by blast
    with tw have "TextWrapper_wrap sp w raw = Some ls" by simp
    from TextWrapper_wrap_indent[OF this] ls(2) show "take 2 x = ''  ''" by blast
  qed
  have 3: "concat wls = splitlines msg" if "wrapper h = (\<lambda>s. Some [s])"
  proof -
    from assms that have "wls = map (\<lambda>s. [s]) (splitlines msg)"
      by (simp add: those_passthrough)
    then show ?thesis by (simp only: concat_singletons)
  qed
  from r 1 2 3 show ?thesis by (simp add: ErrorHandler_log_def)
qed

theorem first_line_stripped_rest_as_wrapped_witness:
  "map_option logged
     (ErrorHandler_log (''   ab cd ef gh'' @ ''\<newline>'' @ ''ij kl'') WARNING ''WARNING: ''
        (ErrorHandler_init wordsep_simple_split (Some (7, 24)) None)) =
   Some [(WARNING, ''WARNING: ab''), (WARNING, ''  cd ef''), (WARNING, ''  gh''),
         (WARNING, ''  ij kl'')]"
proof -
  let ?h = "ErrorHandler_init wordsep_simple_split (Some (7, 24)) None"
  have t: "those (map (wrapper ?h) (splitlines (''   ab cd ef gh'' @ ''\<newline>'' @ ''ij kl''))) =
      Some [[''     ab'', ''  cd ef'', ''  gh''], [''  ij kl'']]"
    by code_simp
  have l: "lstrip ''     ab'' = ''ab''" by (simp add: lstrip_def isspace_def)
  have z: "logged ?h = []" by simp
  from first_line_stripped_rest_as_wrapped[OF t, of WARNING "''WARNING: ''"] l z
  show ?thesis by auto
qed

section \<open>Properties of the file filter\<close>

text \<open>
  Claim C8, as stated, fails: with the repository root \<open>/repo\<close>, the path \<open>a\<close> joined
  with the root is \<open>/repo/a\<close>; a filter that holds the bare form \<open>a\<close> does not make the
  plugin handle the path given in the joined form.
\<close>

theorem HandlesFile_counterexample:
  "path_join ''/repo'' ''a'' = ''/repo/a'' \<and>
   HandlesFile ''/repo'' ''/home/admin'' (Some [''a'']) ''a'' \<and>
   \<not> HandlesFile ''/repo'' ''/home/admin'' (Some [''a'']) ''/repo/a''"
  by code_simp

text \<open>
  Claim C8, amended. Without a filter every path is handled. With a filter, a path is
  handled exactly when the filter holds, as one of its entries, the path as given, or the
  path joined with the repository root, or the path made absolute, or the path joined and
  then made absolute; the entries themselves are compared as they are. So an entry in the
  joined and absolute form makes the plugin handle the path given bare, given joined, or
  given in that form.
\<close>

theorem HandlesFile_forms_of_given_path:
  "HandlesFile repository cwd None fname \<and>
   (HandlesFile repository cwd (Some fs) fname \<longleftrightarrow>
      fname \<in> set fs \<or> path_join repository fname \<in> set fs \<or>
      abspath cwd fname \<in> set fs \<or> abspath cwd (path_join repository fname) \<in> set fs) \<and>
   (abspath cwd (path_join repository fname) \<in> set fs \<longrightarrow>
      HandlesFile repository cwd (Some fs) fname \<and>
      HandlesFile repository cwd (Some fs) (path_join repository fname) \<and>
      HandlesFile repository cwd (Some fs) (abspath cwd (path_join repository fname)))"
  by (simp add: HandlesFile_def)

theorem HandlesFile_forms_of_given_path_witness:
  "abspath ''/home/admin'' (path_join ''/repo'' ''Rules/web.xml'') = ''/repo/Rules/web.xml'' \<and>
   HandlesFile ''/repo'' ''/home/admin'' (Some [''/repo/Rules/web.xml'']) ''Rules/web.xml'' \<and>
   HandlesFile ''/repo'' ''/home/admin'' (Some [''/repo/Rules/web.xml''])
     (path_join ''/repo'' ''Rules/web.xml'')"
proof -
  have a: "abspath ''/home/admin'' (path_join ''/repo'' ''Rules/web.xml'') = ''/repo/Rules/web.xml''"
    by code_simp
  then have "abspath ''/home/admin'' (path_join ''/repo'' ''Rules/web.xml'') \<in> set [''/repo/Rules/web.xml'']"
    by simp
  with HandlesFile_forms_of_given_path[of "''/repo''" "''/home/admin''" "''Rules/web.xml''"
      "[''/repo/Rules/web.xml'']"] a
  show ?thesis by blast
qed

section \<open>Properties of the runner\<close>

lemma emit_fields [simp]:
  "files (emit e cli) = files cli" "errorhandler (emit e cli) = errorhandler cli"
  "serverlessplugins (emit e cli) = serverlessplugins cli"
  "serverplugins (emit e cli) = serverplugins cli"
  "trace (emit e cli) = trace cli @ [e]"
  by (simp_all add: emit_def)

lemma Plugin_init_fields [simp]:
  "errors (Plugin_init p h) = errors h" "warnings (Plugin_init p h) = warnings h"
  "wrapper (Plugin_init p h) = wrapper h" "logged (Plugin_init p h) = logged h"
  by (simp_all add: Plugin_init_def)

text \<open>A \<open>Run\<close> that raises: the steps before the first fault are \<open>LintError\<close> calls, and
  the handler at the raise is the one those calls leave.\<close>

lemma Run_steps_fault:
  "Run_steps (map (\<lambda>(err, msg). LintError err msg) evs @ Fault e # post) h =
     (case dispatch_all evs h of Some h' \<Rightarrow> Raises e h' | None \<Rightarrow> Diverges)"
  by (induction evs arbitrary: h) (auto split: option.splits)

lemma Run_steps_counts:
  assumes "state_after (Run_steps st h) = Some h'"
  shows "errors h \<le> errors h' \<and> warnings h \<le> warnings h' \<and> wrapper h' = wrapper h"
  using assms
proof (induction st h rule: Run_steps.induct)
  case (1 h)
  then show ?case by simp
next
  case (2 err msg rest h)
  from 2(2) obtain h1 where d: "dispatch err msg h = Some h1"
    by (auto split: option.splits)
  with 2(2) have "state_after (Run_steps rest h1) = Some h'" by simp
  from 2(1)[OF d this] dispatch_counts[OF d] show ?case by (auto split: if_splits)
next
  case (3 e rest h)
  then show ?case by simp
qed

lemma Run_steps_returns:
  assumes "\<forall>e. Fault e \<notin> set st" and "\<forall>s. wrapper h s \<noteq> None"
  shows "\<exists>h'. Run_steps st h = Returns () h'"
  using assms
proof (induction st h rule: Run_steps.induct)
  case (1 h)
  then show ?case by simp
next
  case (2 err msg rest h)
  from 2(3) have "\<forall>r \<in> set (splitlines msg). wrapper h r \<noteq> None" by simp
  from dispatch_returns[OF this] obtain h1 where d: "dispatch err msg h = Some h1" by blast
  from dispatch_counts[OF d] 2(3) have "\<forall>s. wrapper h1 s \<noteq> None" by simp
  with 2(1)[OF d] 2(2) d show ?case by simp
next
  case (3 e rest h)
  from 3(1) have "Fault e \<notin> set (Fault e # rest)" by blast
  then show ?case by simp
qed

lemma instantiate_and_Run_state:
  assumes "state_after (instantiate_and_Run p cli) = Some cli'"
  shows "files cli' = files cli \<and> serverlessplugins cli' = serverlessplugins cli \<and>
         serverplugins cli' = serverplugins cli \<and>
         trace cli' = trace cli @ [Instantiate (name p), Call_Run (name p)] \<and>
         errors (errorhandler cli) \<le> errors (errorhandler cli') \<and>
         warnings (errorhandler cli) \<le> warnings (errorhandler cli') \<and>
         wrapper (errorhandler cli') = wrapper (errorhandler cli)"
proof -
  let ?h = "Plugin_init p (errorhandler cli)"
  from assms obtain h' where s: "state_after (Run_steps (Run p) ?h) = Some h'"
    and c: "cli' = (emit (Call_Run (name p)) ((emit (Instantiate (name p)) cli)\<lparr>errorhandler := ?h\<rparr>))
                     \<lparr>errorhandler := h'\<rparr>"
    by (auto simp: instantiate_and_Run_def Let_def split: outcome.splits)
  from Run_steps_counts[OF s] c show ?thesis by (simp add: emit_def)
qed

lemma run_plugins_append:
  "run_plugins (ps @ qs) cli =
     (case run_plugins ps cli of
        Returns u cli' \<Rightarrow> run_plugins qs cli'
      | Raises e cli' \<Rightarrow> Raises e cli'
      | Diverges \<Rightarrow> Diverges)"
  by (induction ps arbitrary: cli) (auto split: outcome.splits)

lemma run_plugins_state:
  assumes "state_after (run_plugins ps cli) = Some cli'"
  shows "files cli' = files cli \<and> serverlessplugins cli' = serverlessplugins cli \<and>
         serverplugins cli' = serverplugins cli \<and>
         errors (errorhandler cli) \<le> errors (errorhandler cli') \<and>
         warnings (errorhandler cli) \<le> warnings (errorhandler cli') \<and>
         wrapper (errorhandler cli') = wrapper (errorhandler cli)"
  using assms
proof (induction ps arbitrary: cli)
  case Nil
  then show ?case by simp
next
  case (Cons p ps)
  let ?c = "emit (Log DEBUG (''  Running '' @ name p)) cli"
  show ?case
  proof (cases "instantiate_and_Run p ?c")
    case (Returns u c1)
    with Cons.prems have "state_after (run_plugins ps c1) = Some cli'" by simp
    from Cons.IH[OF this] instantiate_and_Run_state[of p ?c c1] Returns show ?thesis by simp
  next
    case (Raises e c1)
    with Cons.prems have "cli' = c1" by simp
    with instantiate_and_Run_state[of p ?c c1] Raises show ?thesis by simp
  next
    case Diverges
    with Cons.prems show ?thesis by simp
  qed
qed

lemma instantiate_and_Run_returns:
  assumes "\<forall>e. Fault e \<notin> set (Run p)" and "\<forall>s. wrapper (errorhandler cli) s \<noteq> None"
  shows "\<exists>cli'. instantiate_and_Run p cli = Returns () cli'"
proof -
  let ?h = "Plugin_init p (errorhandler cli)"
  from assms(2) have "\<forall>s. wrapper ?h s \<noteq> None" by simp
  from Run_steps_returns[OF assms(1) this] obtain h' where "Run_steps (Run p) ?h = Returns () h'"
    by blast
  then show ?thesis by (simp add: instantiate_and_Run_def Let_def emit_def)
qed

lemma run_plugins_returns:
  assumes "\<forall>p \<in> set ps. \<forall>e. Fault e \<notin> set (Run p)"
    and "\<forall>s. wrapper (errorhandler cli) s \<noteq> None"
  shows "\<exists>cli'. run_plugins ps cli = Returns () cli'"
  using assms
proof (induction ps arbitrary: cli)
  case Nil
  then show ?case by simp
next
  case (Cons p ps)
  let ?c = "emit (Log DEBUG (''  Running '' @ name p)) cli"
  from Cons.prems have "\<forall>e. Fault e \<notin> set (Run p)" "\<forall>s. wrapper (errorhandler ?c) s \<noteq> None"
    by simp_all
  from instantiate_and_Run_returns[OF this] obtain c1 where
    r: "instantiate_and_Run p ?c = Returns () c1" by blast
  then have "state_after (instantiate_and_Run p ?c) = Some c1" by simp
  from instantiate_and_Run_state[OF this] Cons.prems(2)
  have "\<forall>s. wrapper (errorhandler c1) s \<noteq> None" by simp
  with Cons.IH[of c1] Cons.prems(1) r show ?case by simp
qed

text \<open>The loop stops at the first plugin whose \<open>Run\<close> raises.\<close>

lemma run_plugins_fault:
  assumes "run_plugins ps cli = Returns () cli1"
    and "Run p = map (\<lambda>(err, msg). LintError err msg) evs @ Fault e # post"
    and "dispatch_all evs (Plugin_init p (errorhandler cli1)) = Some h"
  shows "run_plugins (ps @ p # qs) cli =
           Raises e (cli1\<lparr>errorhandler := h,
                          trace := trace cli1 @ [Log DEBUG (''  Running '' @ name p),
                                                 Instantiate (name p), Call_Run (name p)]\<rparr>)"
proof -
  have "Run_steps (Run p) (Plugin_init p (errorhandler cli1)) = Raises e h"
    using assms(2,3) by (simp add: Run_steps_fault)
  then have "instantiate_and_Run p (emit (Log DEBUG (''  Running '' @ name p)) cli1) =
      Raises e (cli1\<lparr>errorhandler := h,
                     trace := trace cli1 @ [Log DEBUG (''  Running '' @ name p),
                                            Instantiate (name p), Call_Run (name p)]\<rparr>)"
    by (simp add: instantiate_and_Run_def Let_def emit_def)
  with assms(1) show ?thesis by (simp add: run_plugins_append)
qed

lemma register_all_fields [simp]:
  "errors (register_all ps h) = errors h" "warnings (register_all ps h) = warnings h"
  "logged (register_all ps h) = logged h"
  by (induction ps arbitrary: h; simp)+

lemma print_errortypes_state:
  "errorhandler (print_errortypes cli) = errorhandler cli \<and>
   (\<exists>out. trace (print_errortypes cli) = trace cli @ map Print out)"
proof -
  have "errorhandler (fold (\<lambda>(err, f). emit (Print (g err f))) xs c) = errorhandler c \<and>
        trace (fold (\<lambda>(err, f). emit (Print (g err f))) xs c) =
          trace c @ map Print (map (\<lambda>(err, f). g err f) xs)" for g xs c
    by (induction xs arbitrary: c) (auto simp: case_prod_beta)
  from this[of _ "errortypes (errorhandler cli)"
      "emit (Print (ljust 35 ''Error name'' @ '' '' @ ljust 35 ''Handler'')) cli"]
  have "errorhandler (print_errortypes cli) = errorhandler cli \<and>
        trace (print_errortypes cli) = trace cli @ map Print
          ((ljust 35 ''Error name'' @ '' '' @ ljust 35 ''Handler'') #
           map (\<lambda>(err, f). ljust 35 err @ '' '' @ ljust 35 (handler_name f))
             (errortypes (errorhandler cli)))"
    unfolding print_errortypes_def by simp
  then show ?thesis by blast
qed

lemma report_result:
  "\<exists>cli'. report su cli =
      Returns (if errors (errorhandler cli) \<noteq> 0 then 2
               else if warnings (errorhandler cli) \<noteq> 0 then 3 else 0) cli' \<and>
     errorhandler cli' = errorhandler cli \<and>
     (trace cli' = trace cli \<or>
      trace cli' = trace cli @ [Print (string_of_int (errors (errorhandler cli)) @ '' errors''),
                                Print (string_of_int (warnings (errorhandler cli)) @ '' warnings'')])"
  by (simp add: report_def Let_def)

lemma run_server_plugins_state:
  assumes "state_after (run_server_plugins ev cli) = Some cli'"
  shows "errors (errorhandler cli) \<le> errors (errorhandler cli') \<and>
         warnings (errorhandler cli) \<le> warnings (errorhandler cli')"
proof (cases "core_fault ev")
  case (Some e)
  with assms show ?thesis by (simp add: run_server_plugins_def)
next
  case None
  let ?c = "emit (Log DEBUG (''Running server plugins: '' @ names_repr (serverplugins cli)))
              (emit Core_start cli)"
  from assms None obtain c1 where "state_after (run_plugins (serverplugins cli) ?c) = Some c1"
    and "cli' = emit Core_shutdown c1"
    by (auto simp: run_server_plugins_def split: outcome.splits)
  with run_plugins_state[of "serverplugins cli" ?c c1] show ?thesis by simp
qed

lemma run_server_plugins_returns:
  assumes "core_fault ev = None" and "\<forall>p \<in> set (serverplugins cli). \<forall>e. Fault e \<notin> set (Run p)"
    and "\<forall>s. wrapper (errorhandler cli) s \<noteq> None"
  shows "\<exists>cli'. run_server_plugins ev cli = Returns () cli'"
proof -
  let ?c = "emit (Log DEBUG (''Running server plugins: '' @ names_repr (serverplugins cli)))
              (emit Core_start cli)"
  from assms(3) have "\<forall>s. wrapper (errorhandler ?c) s \<noteq> None" by simp
  from run_plugins_returns[OF assms(2) this] assms(1) show ?thesis
    by (auto simp: run_server_plugins_def)
qed

text \<open>The exit code of a run that gets as far as running plugins and returns.\<close>

lemma run_exit_code:
  assumes "\<not> list_errors su" and "\<not> (serverplugins cli = [] \<and> serverlessplugins cli = [])"
    and "run ev su cli = Returns code cli'"
  shows "errors (errorhandler cli) \<le> errors (errorhandler cli') \<and>
         warnings (errorhandler cli) \<le> warnings (errorhandler cli') \<and>
         code = (if errors (errorhandler cli') \<noteq> 0 then 2
                 else if warnings (errorhandler cli') \<noteq> 0 then 3 else 0)"
proof -
  let ?c0 = "emit (Log DEBUG (''Running serverless plugins: '' @ names_repr (serverlessplugins cli))) cli"
  from assms obtain cli1 where s1: "run_serverless_plugins cli = Returns () cli1"
    by (auto simp: run_def split: outcome.splits)
  then have "state_after (run_plugins (serverlessplugins cli) ?c0) = Some cli1"
    by (simp add: run_serverless_plugins_def)
  from run_plugins_state[OF this] have m1: "errors (errorhandler cli) \<le> errors (errorhandler cli1)"
    "warnings (errorhandler cli) \<le> warnings (errorhandler cli1)" by simp_all
  have rep: "errors (errorhandler c) \<le> errors (errorhandler cli') \<and>
         warnings (errorhandler c) \<le> warnings (errorhandler cli') \<and>
         code = (if errors (errorhandler cli') \<noteq> 0 then 2
                 else if warnings (errorhandler cli') \<noteq> 0 then 3 else 0)"
    if "report su c = Returns code cli'" for c
    using report_result[of su c] that by auto
  show ?thesis
  proof (cases "serverplugins cli1 \<noteq> [] \<and> errors (errorhandler cli1) = 0")
    case True
    with assms s1 obtain cli2 where s2: "run_server_plugins ev cli1 = Returns () cli2"
      and r: "report su cli2 = Returns code cli'"
      by (auto simp: run_def split: outcome.splits)
    from s2 have "state_after (run_server_plugins ev cli1) = Some cli2" by simp
    from run_server_plugins_state[OF this] rep[OF r] m1 show ?thesis by auto
  next
    case False
    with assms s1 have "report su cli1 = Returns code cli' \<or>
      report su (emit (Print ''Serverless plugins encountered errors, skipping server plugins'') cli1)
        = Returns code cli'"
      by (auto simp: run_def split: if_splits)
    then show ?thesis
    proof
      assume "report su cli1 = Returns code cli'"
      from rep[OF this] m1 show ?thesis by auto
    next
      assume "report su (emit (Print ''Serverless plugins encountered errors, skipping server plugins'') cli1)
        = Returns code cli'"
      from rep[OF this] m1 show ?thesis by auto
    qed
  qed
qed

lemma run_returns:
  assumes "\<not> list_errors su" and "core_fault ev = None"
    and "\<forall>p \<in> set (serverlessplugins cli @ serverplugins cli). \<forall>e. Fault e \<notin> set (Run p)"
    and "\<forall>s. wrapper (errorhandler cli) s \<noteq> None"
  shows "\<exists>code cli'. run ev su cli = Returns code cli'"
proof (cases "serverplugins cli = [] \<and> serverlessplugins cli = []")
  case True
  with assms(1) show ?thesis by (simp add: run_def)
next
  case False
  let ?c0 = "emit (Log DEBUG (''Running serverless plugins: '' @ names_repr (serverlessplugins cli))) cli"
  from assms(3) have f1: "\<forall>p \<in> set (serverlessplugins cli). \<forall>e. Fault e \<notin> set (Run p)" by simp
  from assms(4) have "\<forall>s. wrapper (errorhandler ?c0) s \<noteq> None" by simp
  from run_plugins_returns[OF f1 this] obtain cli1 where
    r1: "run_plugins (serverlessplugins cli) ?c0 = Returns () cli1" by blast
  then have "state_after (run_plugins (serverlessplugins cli) ?c0) = Some cli1" by simp
  from run_plugins_state[OF this] assms(3,4) have
    st: "serverplugins cli1 = serverplugins cli" "\<forall>s. wrapper (errorhandler cli1) s \<noteq> None"
    by simp_all
  from assms(3) st(1) have "\<forall>p \<in> set (serverplugins cli1). \<forall>e. Fault e \<notin> set (Run p)" by simp
  from run_server_plugins_returns[OF assms(2) this st(2)] obtain cli2 where
    r2: "run_server_plugins ev cli1 = Returns () cli2" by blast
  from r1 have s1: "run_serverless_plugins cli = Returns () cli1"
    by (simp add: run_serverless_plugins_def)
  from report_result[of su cli1] report_result[of su cli2]
    report_result[of su "emit (Print ''Serverless plugins encountered errors, skipping server plugins'') cli1"]
  show ?thesis using assms(1) False s1 r2 by (auto simp: run_def)
qed

lemma CLI_init_fields [simp]:
  "errors (errorhandler (CLI_init ev su)) = 0" "warnings (errorhandler (CLI_init ev su)) = 0"
  "errorhandler (CLI_init ev su) = get_errorhandler ev su"
  "serverplugins (CLI_init ev su) = filter server (lint_plugins su)"
  "serverlessplugins (CLI_init ev su) = filter (\<lambda>p. \<not> server p) (lint_plugins su)"
  "trace (CLI_init ev su) = [Log DEBUG (''Running lint with plugins: '' @ names_repr (lint_plugins su))]"
  by (simp_all add: CLI_init_def get_errorhandler_def)

lemma no_plugins_iff:
  "(filter server ps = [] \<and> filter (\<lambda>p. \<not> server p) ps = []) \<longleftrightarrow> ps = []"
  by (cases ps) (auto simp: filter_empty_conv)

text \<open>
  Claim C2. For the run of a freshly built runner: with \<open>--list-errors\<close> it returns 0,
  having only printed and logged (no plugin is instantiated or run, the counters stay 0);
  else with no plugin selected it returns 1; else, whenever it returns, the counters are
  not negative and the code is 2 if \<open>errors\<close> is positive, whatever \<open>warnings\<close> is, else 3
  if \<open>warnings\<close> is positive, else 0. And it does return when no plugin raises, the
  server core starts and the wrapper returns its lines.
\<close>

theorem exit_code_priority:
  "(list_errors su \<longrightarrow>
      (\<exists>cli'. run ev su (CLI_init ev su) = Returns 0 cli' \<and>
         errors (errorhandler cli') = 0 \<and> warnings (errorhandler cli') = 0 \<and>
         (\<forall>e \<in> set (trace cli'). (\<exists>lv s. e = Log lv s) \<or> (\<exists>s. e = Print s)))) \<and>
   (\<not> list_errors su \<and> lint_plugins su = [] \<longrightarrow>
      (\<exists>cli'. run ev su (CLI_init ev su) = Returns 1 cli' \<and> errorhandler cli' = get_errorhandler ev su)) \<and>
   (\<not> list_errors su \<and> lint_plugins su \<noteq> [] \<longrightarrow>
      (\<forall>code cli'. run ev su (CLI_init ev su) = Returns code cli' \<longrightarrow>
         0 \<le> errors (errorhandler cli') \<and> 0 \<le> warnings (errorhandler cli') \<and>
         code = (if 0 < errors (errorhandler cli') then 2
                 else if 0 < warnings (errorhandler cli') then 3 else 0))) \<and>
   (\<not> list_errors su \<and> core_fault ev = None \<and>
    (\<forall>p \<in> set (lint_plugins su). \<forall>e. Fault e \<notin> set (Run p)) \<and>
    (\<forall>s. wrapper (get_errorhandler ev su) s \<noteq> None) \<longrightarrow>
      (\<exists>code cli'. run ev su (CLI_init ev su) = Returns code cli'))"
proof -
  let ?cli = "CLI_init ev su"
  have A: "\<exists>cli'. run ev su ?cli = Returns 0 cli' \<and>
         errors (errorhandler cli') = 0 \<and> warnings (errorhandler cli') = 0 \<and>
         (\<forall>e \<in> set (trace cli'). (\<exists>lv s. e = Log lv s) \<or> (\<exists>s. e = Print s))"
    if "list_errors su"
  proof -
    let ?c = "?cli\<lparr>errorhandler := register_all (serverplugins ?cli @ serverlessplugins ?cli)
                                      (errorhandler ?cli)\<rparr>"
    from that have r: "run ev su ?cli = Returns 0 (print_errortypes ?c)" by (simp add: run_def)
    from print_errortypes_state[of ?c] obtain out where
      e: "errorhandler (print_errortypes ?c) = errorhandler ?c"
      and t: "trace (print_errortypes ?c) = trace ?c @ map Print out" by blast
    have "errors (errorhandler ?c) = 0" "warnings (errorhandler ?c) = 0"
      by (simp_all add: get_errorhandler_def)
    moreover have "\<forall>e \<in> set (trace ?c @ map Print out). (\<exists>lv s. e = Log lv s) \<or> (\<exists>s. e = Print s)"
      by auto
    ultimately show ?thesis using r e t by simp
  qed
  have B: "\<exists>cli'. run ev su ?cli = Returns 1 cli' \<and> errorhandler cli' = get_errorhandler ev su"
    if "\<not> list_errors su \<and> lint_plugins su = []"
    using that by (simp add: run_def)
  have C: "0 \<le> errors (errorhandler cli') \<and> 0 \<le> warnings (errorhandler cli') \<and>
         code = (if 0 < errors (errorhandler cli') then 2
                 else if 0 < warnings (errorhandler cli') then 3 else 0)"
    if h: "\<not> list_errors su \<and> lint_plugins su \<noteq> []" and r: "run ev su ?cli = Returns code cli'"
    for code cli'
  proof -
    from h have ne: "\<not> (serverplugins ?cli = [] \<and> serverlessplugins ?cli = [])"
      using no_plugins_iff[of "lint_plugins su"] by simp
    from h have nl: "\<not> list_errors su" by simp
    from run_exit_code[OF nl ne r] have
      "0 \<le> errors (errorhandler cli')" "0 \<le> warnings (errorhandler cli')"
      "code = (if errors (errorhandler cli') \<noteq> 0 then 2
                 else if warnings (errorhandler cli') \<noteq> 0 then 3 else 0)"
      unfolding CLI_init_fields(1,2) by blast+
    then show ?thesis by auto
  qed
  have D: "\<exists>code cli'. run ev su ?cli = Returns code cli'"
    if h: "\<not> list_errors su \<and> core_fault ev = None \<and>
       (\<forall>p \<in> set (lint_plugins su). \<forall>e. Fault e \<notin> set (Run p)) \<and>
       (\<forall>s. wrapper (get_errorhandler ev su) s \<noteq> None)"
  proof -
    from h have 1: "\<not> list_errors su" and 2: "core_fault ev = None" by simp_all
    from h have 3: "\<forall>p \<in> set (serverlessplugins ?cli @ serverplugins ?cli). \<forall>e. Fault e \<notin> set (Run p)"
      by auto
    from h have 4: "\<forall>s. wrapper (errorhandler ?cli) s \<noteq> None" by simp
    from run_returns[OF 1 2 3 4] show ?thesis .
  qed
  from A B C D show ?thesis by blast
qed


theorem exit_code_priority_witness:
  "returned (run
      \<lparr>termsize = None, stdin_lines = [], wordsep_split = wordsep_simple_split, core_fault = None\<rparr>
      \<lparr>list_errors = False, verbose = False, stdin = False, lint_errors = None,
       lint_plugins = [\<lparr>name = ''Groups'', server = False,
                         Errors = [(''stale-path'', ''warning'')],
                         Run = [LintError ''stale-path'' ''old entry'']\<rparr>]\<rparr>
      (CLI_init
        \<lparr>termsize = None, stdin_lines = [], wordsep_split = wordsep_simple_split, core_fault = None\<rparr>
        \<lparr>list_errors = False, verbose = False, stdin = False, lint_errors = None,
         lint_plugins = [\<lparr>name = ''Groups'', server = False,
                           Errors = [(''stale-path'', ''warning'')],
                           Run = [LintError ''stale-path'' ''old entry'']\<rparr>]\<rparr>)) = Some 3"
proof -
  let ?ev = "\<lparr>termsize = None, stdin_lines = [], wordsep_split = wordsep_simple_split,
              core_fault = None\<rparr>"
  let ?su = "\<lparr>list_errors = False, verbose = False, stdin = False, lint_errors = None,
       lint_plugins = [\<lparr>name = ''Groups'', server = False,
                         Errors = [(''stale-path'', ''warning'')],
                         Run = [LintError ''stale-path'' ''old entry'']\<rparr>]\<rparr>"
  have e: "map_option (\<lambda>c. errors (errorhandler c)) (state_after (run ?ev ?su (CLI_init ?ev ?su))) = Some 0"
    by code_simp
  have w: "map_option (\<lambda>c. warnings (errorhandler c)) (state_after (run ?ev ?su (CLI_init ?ev ?su))) = Some 1"
    by code_simp
  have h: "\<not> list_errors ?su \<and> core_fault ?ev = None \<and>
    (\<forall>p \<in> set (lint_plugins ?su). \<forall>e. Fault e \<notin> set (Run p)) \<and>
    (\<forall>s. wrapper (get_errorhandler ?ev ?su) s \<noteq> None)"
    by (simp add: get_errorhandler_def)
  have n: "\<not> list_errors ?su \<and> lint_plugins ?su \<noteq> []" by simp
  from exit_code_priority[of ?su ?ev] h obtain code cli' where
    r: "run ?ev ?su (CLI_init ?ev ?su) = Returns code cli'" by blast
  from exit_code_priority[of ?su ?ev] n r have
    c: "code = (if 0 < errors (errorhandler cli') then 2
                 else if 0 < warnings (errorhandler cli') then 3 else 0)" by blast
  from e w r have "errors (errorhandler cli') = 0" "warnings (errorhandler cli') = 1" by simp_all
  with c r show ?thesis by simp
qed

text \<open>
  Claim C3. In a run that is not a listing and has server plugins, if the serverless phase
  returns with a nonzero error count, the run returns 2 and, after that phase, only
  prints: the notice that server plugins are skipped and the two lines of the summary. No
  server plugin is instantiated, no \<open>Run\<close> is called, the server core is not started,
  and the handler stays as the serverless phase left it.
\<close>

theorem server_phase_skipped_after_errors:
  assumes "\<not> list_errors su" and "serverplugins cli \<noteq> []"
    and "run_serverless_plugins cli = Returns () cli1"
    and "errors (errorhandler cli1) \<noteq> 0"
  shows "\<exists>cli2. run ev su cli = Returns 2 cli2 \<and>
           errorhandler cli2 = errorhandler cli1 \<and>
           trace cli2 = trace cli1 @
             [Print ''Serverless plugins encountered errors, skipping server plugins'',
              Print (string_of_int (errors (errorhandler cli1)) @ '' errors''),
              Print (string_of_int (warnings (errorhandler cli1)) @ '' warnings'')]"
proof -
  from assms(3) have "state_after (run_plugins (serverlessplugins cli)
      (emit (Log DEBUG (''Running serverless plugins: '' @ names_repr (serverlessplugins cli))) cli))
      = Some cli1" by (simp add: run_serverless_plugins_def)
  from run_plugins_state[OF this] have sp: "serverplugins cli1 = serverplugins cli" by simp
  let ?c = "emit (Print ''Serverless plugins encountered errors, skipping server plugins'') cli1"
  have "run ev su cli = report su ?c"
    using assms sp by (simp add: run_def)
  moreover have "report su ?c = Returns 2
      (emit (Print (string_of_int (warnings (errorhandler cli1)) @ '' warnings''))
         (emit (Print (string_of_int (errors (errorhandler cli1)) @ '' errors'')) ?c))"
    using assms(4) by (simp add: report_def Let_def)
  ultimately show ?thesis by simp
qed

theorem server_phase_skipped_after_errors_witness:
  "map_option trace (state_after (run
      \<lparr>termsize = None, stdin_lines = [], wordsep_split = wordsep_simple_split, core_fault = None\<rparr>
      \<lparr>list_errors = False, verbose = False, stdin = False, lint_errors = None,
       lint_plugins = [\<lparr>name = ''A'', server = False, Errors = [(''dup-group'', ''error'')],
                         Run = [LintError ''dup-group'' ''twice'']\<rparr>,
                       \<lparr>name = ''B'', server = True, Errors = [(''stale-path'', ''warning'')],
                         Run = [LintError ''stale-path'' ''old'']\<rparr>]\<rparr>
      (CLI_init
        \<lparr>termsize = None, stdin_lines = [], wordsep_split = wordsep_simple_split, core_fault = None\<rparr>
        \<lparr>list_errors = False, verbose = False, stdin = False, lint_errors = None,
         lint_plugins = [\<lparr>name = ''A'', server = False, Errors = [(''dup-group'', ''error'')],
                           Run = [LintError ''dup-group'' ''twice'']\<rparr>,
                         \<lparr>name = ''B'', server = True, Errors = [(''stale-path'', ''warning'')],
                           Run = [LintError ''stale-path'' ''old'']\<rparr>]\<rparr>))) =
   Some [Log DEBUG (''Running lint with plugins: ['' @ [CHR 0x27] @ ''A'' @ [CHR 0x27] @ '', ''
                    @ [CHR 0x27] @ ''B'' @ [CHR 0x27] @ '']''),
         Log DEBUG (''Running serverless plugins: ['' @ [CHR 0x27] @ ''A'' @ [CHR 0x27] @ '']''),
         Log DEBUG ''  Running A'', Instantiate ''A'', Call_Run ''A'',
         Print ''Serverless plugins encountered errors, skipping server plugins'',
         Print ''1 errors'', Print ''0 warnings'']"
proof -
  let ?ev = "\<lparr>termsize = None, stdin_lines = [], wordsep_split = wordsep_simple_split,
              core_fault = None\<rparr>"
  let ?su = "\<lparr>list_errors = False, verbose = False, stdin = False, lint_errors = None,
       lint_plugins = [\<lparr>name = ''A'', server = False, Errors = [(''dup-group'', ''error'')],
                         Run = [LintError ''dup-group'' ''twice'']\<rparr>,
                       \<lparr>name = ''B'', server = True, Errors = [(''stale-path'', ''warning'')],
                         Run = [LintError ''stale-path'' ''old'']\<rparr>]\<rparr>"
  let ?cli = "CLI_init ?ev ?su"
  have a: "\<not> list_errors ?su" by simp
  have b: "serverplugins ?cli \<noteq> []" by simp
  have r: "returned (run_serverless_plugins ?cli) = Some ()" by code_simp
  have e: "map_option (\<lambda>c. errors (errorhandler c)) (state_after (run_serverless_plugins ?cli)) = Some 1"
    by code_simp
  have w: "map_option (\<lambda>c. warnings (errorhandler c)) (state_after (run_serverless_plugins ?cli)) = Some 0"
    by code_simp
  have t: "map_option trace (state_after (run_serverless_plugins ?cli)) =
     Some [Log DEBUG (''Running lint with plugins: ['' @ [CHR 0x27] @ ''A'' @ [CHR 0x27] @ '', ''
                    @ [CHR 0x27] @ ''B'' @ [CHR 0x27] @ '']''),
         Log DEBUG (''Running serverless plugins: ['' @ [CHR 0x27] @ ''A'' @ [CHR 0x27] @ '']''),
         Log DEBUG ''  Running A'', Instantiate ''A'', Call_Run ''A'']"
    by code_simp
  from r obtain cli1 where c1: "run_serverless_plugins ?cli = Returns () cli1"
    by (cases "run_serverless_plugins ?cli") auto
  with e w t have v: "errors (errorhandler cli1) = 1" "warnings (errorhandler cli1) = 0"
    "trace cli1 = [Log DEBUG (''Running lint with plugins: ['' @ [CHR 0x27] @ ''A'' @ [CHR 0x27] @ '', ''
                    @ [CHR 0x27] @ ''B'' @ [CHR 0x27] @ '']''),
         Log DEBUG (''Running serverless plugins: ['' @ [CHR 0x27] @ ''A'' @ [CHR 0x27] @ '']''),
         Log DEBUG ''  Running A'', Instantiate ''A'', Call_Run ''A'']" by simp_all
  then have ne: "errors (errorhandler cli1) \<noteq> 0" by simp
  have s1: "string_of_int 1 = ''1''" and s0: "string_of_int 0 = ''0''" by code_simp+
  from server_phase_skipped_after_errors[OF a b c1 ne, of ?ev] obtain cli2 where
    "run ?ev ?su ?cli = Returns 2 cli2"
    "trace cli2 = trace cli1 @
             [Print ''Serverless plugins encountered errors, skipping server plugins'',
              Print (string_of_int (errors (errorhandler cli1)) @ '' errors''),
              Print (string_of_int (warnings (errorhandler cli1)) @ '' warnings'')]" by blast
  with v s1 s0 show ?thesis by simp
qed

text \<open>
  Claim C1, as stated, fails: here the first of two serverless plugins raises
  \<open>KeyError\<close> after one finding. The run does not return an exit code but raises that
  exception; nothing about the fault is logged, and the second plugin is never
  instantiated.
\<close>

theorem plugin_fault_counterexample:
  "raised (run
      \<lparr>termsize = None, stdin_lines = [], wordsep_split = wordsep_simple_split, core_fault = None\<rparr>
      \<lparr>list_errors = False, verbose = False, stdin = False, lint_errors = None,
       lint_plugins = [\<lparr>name = ''Broken'', server = False, Errors = [(''dup-group'', ''error'')],
                         Run = [LintError ''dup-group'' ''twice'', Fault ''KeyError'']\<rparr>,
                       \<lparr>name = ''Next'', server = False, Errors = [], Run = []\<rparr>]\<rparr>
      (CLI_init
        \<lparr>termsize = None, stdin_lines = [], wordsep_split = wordsep_simple_split, core_fault = None\<rparr>
        \<lparr>list_errors = False, verbose = False, stdin = False, lint_errors = None,
         lint_plugins = [\<lparr>name = ''Broken'', server = False, Errors = [(''dup-group'', ''error'')],
                           Run = [LintError ''dup-group'' ''twice'', Fault ''KeyError'']\<rparr>,
                         \<lparr>name = ''Next'', server = False, Errors = [], Run = []\<rparr>]\<rparr>))
     = Some ''KeyError'' \<and>
   map_option trace (state_after (run
      \<lparr>termsize = None, stdin_lines = [], wordsep_split = wordsep_simple_split, core_fault = None\<rparr>
      \<lparr>list_errors = False, verbose = False, stdin = False, lint_errors = None,
       lint_plugins = [\<lparr>name = ''Broken'', server = False, Errors = [(''dup-group'', ''error'')],
                         Run = [LintError ''dup-group'' ''twice'', Fault ''KeyError'']\<rparr>,
                       \<lparr>name = ''Next'', server = False, Errors = [], Run = []\<rparr>]\<rparr>
      (CLI_init
        \<lparr>termsize = None, stdin_lines = [], wordsep_split = wordsep_simple_split, core_fault = None\<rparr>
        \<lparr>list_errors = False, verbose = False, stdin = False, lint_errors = None,
         lint_plugins = [\<lparr>name = ''Broken'', server = False, Errors = [(''dup-group'', ''error'')],
                           Run = [LintError ''dup-group'' ''twice'', Fault ''KeyError'']\<rparr>,
                         \<lparr>name = ''Next'', server = False, Errors = [], Run = []\<rparr>]\<rparr>)))
     = Some [Log DEBUG (''Running lint with plugins: ['' @ [CHR 0x27] @ ''Broken'' @ [CHR 0x27]
                        @ '', '' @ [CHR 0x27] @ ''Next'' @ [CHR 0x27] @ '']''),
             Log DEBUG (''Running serverless plugins: ['' @ [CHR 0x27] @ ''Broken'' @ [CHR 0x27]
                        @ '', '' @ [CHR 0x27] @ ''Next'' @ [CHR 0x27] @ '']''),
             Log DEBUG ''  Running Broken'', Instantiate ''Broken'', Call_Run ''Broken'']"
  by code_simp

text \<open>
  Claim C1, amended. In a run that is not a listing, an exception raised by a plugin's
  \<open>Run\<close> is not caught: it ends the phase and the run. In the serverless phase, when the
  plugins before the faulting one have returned, the run raises the plugin's exception
  right after the call of its \<open>Run\<close>: no later plugin is instantiated or run, nothing is
  logged or printed about the fault and no exit code is returned. In the server phase the
  same holds, and the core is shut down before the exception leaves. In both, the handler
  at the raise is the one left by the findings the plugin dispatched before its fault: the
  fault itself adds nothing to the error counter.
\<close>

theorem plugin_fault_ends_the_run:
  assumes "\<not> list_errors su"
    and "Run p = map (\<lambda>(err, msg). LintError err msg) evs @ Fault e # post"
    and "dispatch_all evs (Plugin_init p (errorhandler cli1)) = Some h"
  shows "(serverlessplugins cli = ps @ p # qs \<and>
          run_plugins ps (emit (Log DEBUG (''Running serverless plugins: ''
                                 @ names_repr (serverlessplugins cli))) cli) = Returns () cli1
          \<longrightarrow>
            run ev su cli =
              Raises e (cli1\<lparr>errorhandler := h,
                             trace := trace cli1 @ [Log DEBUG (''  Running '' @ name p),
                                                    Instantiate (name p), Call_Run (name p)]\<rparr>)) \<and>
         (serverplugins cli = ps @ p # qs \<and> core_fault ev = None \<and>
          run_serverless_plugins cli = Returns () cli0 \<and> errors (errorhandler cli0) = 0 \<and>
          run_plugins ps (emit (Log DEBUG (''Running server plugins: ''
                                 @ names_repr (serverplugins cli0))) (emit Core_start cli0))
            = Returns () cli1
          \<longrightarrow>
            run ev su cli =
              Raises e (cli1\<lparr>errorhandler := h,
                             trace := trace cli1 @ [Log DEBUG (''  Running '' @ name p),
                                                    Instantiate (name p), Call_Run (name p),
                                                    Core_shutdown]\<rparr>)) \<and>
         errors h = errors (errorhandler cli1)
            + int (length (filter (\<lambda>ev. resolve (Plugin_init p (errorhandler cli1)) (fst ev) = Error) evs)) \<and>
         warnings h = warnings (errorhandler cli1)
            + int (length (filter (\<lambda>ev. resolve (Plugin_init p (errorhandler cli1)) (fst ev) = Warn) evs))"
proof -
  let ?X = "cli1\<lparr>errorhandler := h,
                 trace := trace cli1 @ [Log DEBUG (''  Running '' @ name p),
                                        Instantiate (name p), Call_Run (name p)]\<rparr>"
  have A: "run ev su cli = Raises e ?X"
    if s: "serverlessplugins cli = ps @ p # qs"
      and r: "run_plugins ps (emit (Log DEBUG (''Running serverless plugins: ''
                @ names_repr (serverlessplugins cli))) cli) = Returns () cli1"
  proof -
    from run_plugins_fault[OF r assms(2,3), of qs] s
    have "run_serverless_plugins cli = Raises e ?X" by (simp add: run_serverless_plugins_def)
    with assms(1) s show ?thesis by (simp add: run_def)
  qed
  have B: "run ev su cli = Raises e (cli1\<lparr>errorhandler := h,
                 trace := trace cli1 @ [Log DEBUG (''  Running '' @ name p),
                                        Instantiate (name p), Call_Run (name p), Core_shutdown]\<rparr>)"
    if s: "serverplugins cli = ps @ p # qs" and cf: "core_fault ev = None"
      and r0: "run_serverless_plugins cli = Returns () cli0" and z: "errors (errorhandler cli0) = 0"
      and r: "run_plugins ps (emit (Log DEBUG (''Running server plugins: ''
                @ names_repr (serverplugins cli0))) (emit Core_start cli0)) = Returns () cli1"
  proof -
    from r0 have "state_after (run_plugins (serverlessplugins cli)
        (emit (Log DEBUG (''Running serverless plugins: '' @ names_repr (serverlessplugins cli))) cli))
        = Some cli0" by (simp add: run_serverless_plugins_def)
    from run_plugins_state[OF this] s have sp: "serverplugins cli0 = ps @ p # qs" by simp
    from run_plugins_fault[OF r assms(2,3), of qs] sp cf
    have "run_server_plugins ev cli0 = Raises e (emit Core_shutdown ?X)"
      by (simp add: run_server_plugins_def)
    moreover have "emit Core_shutdown ?X = cli1\<lparr>errorhandler := h,
                 trace := trace cli1 @ [Log DEBUG (''  Running '' @ name p),
                                        Instantiate (name p), Call_Run (name p), Core_shutdown]\<rparr>"
      by (simp add: emit_def)
    ultimately show ?thesis using assms(1) s r0 z sp by (simp add: run_def)
  qed
  from dispatch_all_counts[OF assms(3)] have C:
    "errors h = errors (errorhandler cli1)
            + int (length (filter (\<lambda>ev. resolve (Plugin_init p (errorhandler cli1)) (fst ev) = Error) evs))"
    "warnings h = warnings (errorhandler cli1)
            + int (length (filter (\<lambda>ev. resolve (Plugin_init p (errorhandler cli1)) (fst ev) = Warn) evs))"
    by simp_all
  from A B C show ?thesis by blast
qed

theorem plugin_fault_ends_the_run_witness:
  "raised (run
      \<lparr>termsize = None, stdin_lines = [], wordsep_split = wordsep_simple_split, core_fault = None\<rparr>
      \<lparr>list_errors = False, verbose = False, stdin = False, lint_errors = None,
       lint_plugins = [\<lparr>name = ''Broken'', server = False, Errors = [(''dup-group'', ''error'')],
                         Run = [LintError ''dup-group'' ''twice'', Fault ''KeyError'']\<rparr>,
                       \<lparr>name = ''Next'', server = False, Errors = [], Run = []\<rparr>]\<rparr>
      (CLI_init
        \<lparr>termsize = None, stdin_lines = [], wordsep_split = wordsep_simple_split, core_fault = None\<rparr>
        \<lparr>list_errors = False, verbose = False, stdin = False, lint_errors = None,
         lint_plugins = [\<lparr>name = ''Broken'', server = False, Errors = [(''dup-group'', ''error'')],
                           Run = [LintError ''dup-group'' ''twice'', Fault ''KeyError'']\<rparr>,
                         \<lparr>name = ''Next'', server = False, Errors = [], Run = []\<rparr>]\<rparr>))
     = Some ''KeyError''"
proof -
  let ?ev = "\<lparr>termsize = None, stdin_lines = [], wordsep_split = wordsep_simple_split,
              core_fault = None\<rparr>"
  let ?p = "\<lparr>name = ''Broken'', server = False, Errors = [(''dup-group'', ''error'')],
             Run = [LintError ''dup-group'' ''twice'', Fault ''KeyError'']\<rparr>"
  let ?q = "\<lparr>name = ''Next'', server = False, Errors = [], Run = []\<rparr>"
  let ?su = "\<lparr>list_errors = False, verbose = False, stdin = False, lint_errors = None,
              lint_plugins = [?p, ?q]\<rparr>"
  let ?cli = "CLI_init ?ev ?su"
  let ?cli1 = "emit (Log DEBUG (''Running serverless plugins: '' @ names_repr (serverlessplugins ?cli))) ?cli"
  have a: "\<not> list_errors ?su" by simp
  have b: "Run ?p = map (\<lambda>(err, msg). LintError err msg) [(''dup-group'', ''twice'')]
             @ Fault ''KeyError'' # []" by simp
  have "\<forall>ev \<in> set [(''dup-group'', ''twice'')]. \<forall>r \<in> set (splitlines (snd ev)).
          wrapper (Plugin_init ?p (errorhandler ?cli1)) r \<noteq> None"
    by (simp add: get_errorhandler_def)
  from dispatch_all_returns[OF this] obtain h where
    c: "dispatch_all [(''dup-group'', ''twice'')] (Plugin_init ?p (errorhandler ?cli1)) = Some h"
    by blast
  have d: "serverlessplugins ?cli = [] @ ?p # [?q]" by simp
  have f: "run_plugins [] ?cli1 = Returns () ?cli1" by simp
  from plugin_fault_ends_the_run[OF a b c, of ?cli "[]" "[?q]" ?ev] d f
  have "run ?ev ?su ?cli = Raises ''KeyError''
      (?cli1\<lparr>errorhandler := h,
             trace := trace ?cli1 @ [Log DEBUG (''  Running '' @ name ?p),
                                     Instantiate (name ?p), Call_Run (name ?p)]\<rparr>)"
    by blast
  then show ?thesis by simp
qed

section \<open>When the installed wrapper returns\<close>


section \<open>Dispatch of a kind that is not registered\<close>




end
